theory Spec2Isabelle
  imports Main "HOL-Library.Multiset" "HOL-Library.AList"
begin

section \<open>Data model\<close>

text \<open>
  The scheduler cache of \<^verbatim>\<open>pkg/scheduler/cache\<close> and the \<^verbatim>\<open>AntiAffinity\<close> filter plugin.
  The Go structs are records, the map key \<^verbatim>\<open>AntiKey\<close> is a datatype, Go maps are
  partial functions, and a lookup of a missing key yields the zero value of the element
  type, which is written out in \<open>slice_at\<close>, \<open>label_at\<close> and \<open>set_at\<close>.

  Modelled from the spec: the declarations of \<^verbatim>\<open>ResourceBinding\<close>,
  \<^verbatim>\<open>ResourceBindingSpec\<close>, \<^verbatim>\<open>Placement\<close>, \<^verbatim>\<open>Cluster\<close> and \<^verbatim>\<open>framework.Result\<close> are
  not part of the sources at hand; the records below carry exactly the fields the code reads
  (the projection of section 3 of the specification), with the field paths of the code.
\<close>

datatype AntiKey = AntiKey (KeyNamespace: string) (LabelKey: string) (GroupValue: string)

definition MakeAntiKey :: "string \<Rightarrow> string \<Rightarrow> string \<Rightarrow> AntiKey" where
  "MakeAntiKey ns key val = AntiKey ns key val"

record WorkloadAffinityTerm =
  AffinityLabelKey :: string

record Placement =
  WorkloadAffinity :: "WorkloadAffinityTerm option"

record ObjectReference =
  ResNamespace :: string
  ResName :: string
  AffinityGroupLabel :: "string \<rightharpoonup> string"

record TargetCluster =
  TargetName :: string

record ResourceBindingSpec =
  Resource :: ObjectReference
  Placement :: Placement
  Clusters :: "TargetCluster list"

record ResourceBinding =
  Namespace :: string
  Name :: string
  Spec :: ResourceBindingSpec

text \<open>
  The payload of an informer event is an \<^verbatim>\<open>interface{}\<close>: a pointer to a
  \<^verbatim>\<open>ResourceBinding\<close> (possibly a nil pointer), a tombstone
  \<^verbatim>\<open>cache.DeletedFinalStateUnknown\<close> with a key and a wrapped payload, or anything else.
\<close>

datatype obj =
    PtrResourceBinding "ResourceBinding option"
  | DeletedFinalStateUnknown string obj
  | OtherObj

fun getRBFromObj :: "obj \<Rightarrow> ResourceBinding option" where
  "getRBFromObj (PtrResourceBinding t) = t"
| "getRBFromObj (DeletedFinalStateUnknown k (PtrResourceBinding rb)) = rb"
| "getRBFromObj _ = None"

section \<open>The index, with Go values read as values\<close>

text \<open>
  \<^verbatim>\<open>schedulerCache\<close>: the two maps of the index. The lock \<^verbatim>\<open>mu\<close> is not modelled
  (every handler runs as one step), and the cluster lister is an argument of \<open>Snapshot\<close>.
\<close>

record schedulerCache =
  affinityGroups :: "AntiKey \<rightharpoonup> string list"
  clustersByRB :: "string \<rightharpoonup> string set"

definition NewCache :: schedulerCache where
  "NewCache = \<lparr>affinityGroups = Map.empty, clustersByRB = Map.empty\<rparr>"

definition slice_at :: "('k \<rightharpoonup> 'a list) \<Rightarrow> 'k \<Rightarrow> 'a list" where
  "slice_at m k = (case m k of None \<Rightarrow> [] | Some xs \<Rightarrow> xs)"

definition label_at :: "(string \<rightharpoonup> string) \<Rightarrow> string \<Rightarrow> string" where
  "label_at m k = (case m k of None \<Rightarrow> [] | Some v \<Rightarrow> v)"

definition set_at :: "('k \<rightharpoonup> 'a set) \<Rightarrow> 'k \<Rightarrow> 'a set" where
  "set_at m k = (case m k of None \<Rightarrow> {} | Some s \<Rightarrow> s)"

definition rbID_of :: "ResourceBinding \<Rightarrow> string" where
  "rbID_of rb = Namespace rb @ ''/'' @ Name rb"

text \<open>The loop of \<^verbatim>\<open>indexRB\<close> that inserts every target's name into a fresh set.\<close>

fun insert_targets :: "TargetCluster list \<Rightarrow> string set \<Rightarrow> string set" where
  "insert_targets [] clusters = clusters"
| "insert_targets (target # rest) clusters = insert_targets rest (insert (TargetName target) clusters)"

definition indexRB :: "schedulerCache \<Rightarrow> ResourceBinding \<Rightarrow> schedulerCache" where
  "indexRB c rb =
     (if length (Clusters (Spec rb)) = 0 then c
      else case WorkloadAffinity (Placement (Spec rb)) of
        None \<Rightarrow> c
      | Some affinityTerm \<Rightarrow>
          if AffinityLabelKey affinityTerm = '''' then c
          else
            let groupValue = label_at (AffinityGroupLabel (Resource (Spec rb))) (AffinityLabelKey affinityTerm)
            in if groupValue = '''' then c
               else
                 let rbID = rbID_of rb;
                     clusters = insert_targets (Clusters (Spec rb)) {};
                     key = MakeAntiKey (Namespace rb) (AffinityLabelKey affinityTerm) groupValue
                 in c\<lparr>affinityGroups := (affinityGroups c)(key \<mapsto> slice_at (affinityGroups c) key @ [rbID]),
                       clustersByRB := (clustersByRB c)(rbID \<mapsto> clusters)\<rparr>)"

text \<open>The filtering loop of \<^verbatim>\<open>unindexRB\<close>: every id other than \<open>rbID\<close> is appended.\<close>

fun filter_ids :: "string \<Rightarrow> string list \<Rightarrow> string list \<Rightarrow> string list" where
  "filter_ids rbID [] filtered = filtered"
| "filter_ids rbID (i # rest) filtered =
     filter_ids rbID rest (if i \<noteq> rbID then filtered @ [i] else filtered)"

definition unindexRB :: "schedulerCache \<Rightarrow> ResourceBinding \<Rightarrow> schedulerCache" where
  "unindexRB c rb =
     (case WorkloadAffinity (Placement (Spec rb)) of
        None \<Rightarrow> c
      | Some affinityTerm \<Rightarrow>
          if AffinityLabelKey affinityTerm = '''' then c
          else
            let groupValue = label_at (AffinityGroupLabel (Resource (Spec rb))) (AffinityLabelKey affinityTerm)
            in if groupValue = '''' then c
               else
                 let rbID = rbID_of rb;
                     key = MakeAntiKey (Namespace rb) (AffinityLabelKey affinityTerm) groupValue;
                     groups' =
                       (case affinityGroups c key of
                          None \<Rightarrow> affinityGroups c
                        | Some slice \<Rightarrow>
                            let filtered = filter_ids rbID slice []
                            in if length filtered = 0 then (affinityGroups c)(key := None)
                               else (affinityGroups c)(key \<mapsto> filtered))
                 in c\<lparr>affinityGroups := groups', clustersByRB := (clustersByRB c)(rbID := None)\<rparr>)"

definition OnResourceBindingAdd :: "schedulerCache \<Rightarrow> obj \<Rightarrow> schedulerCache" where
  "OnResourceBindingAdd c ob =
     (case getRBFromObj ob of None \<Rightarrow> c | Some rb \<Rightarrow> indexRB c rb)"

definition OnResourceBindingUpdate :: "schedulerCache \<Rightarrow> obj \<Rightarrow> obj \<Rightarrow> schedulerCache" where
  "OnResourceBindingUpdate c oldObj newObj =
     (case getRBFromObj oldObj of
        None \<Rightarrow> c
      | Some oldRB \<Rightarrow>
          (case getRBFromObj newObj of
             None \<Rightarrow> c
           | Some newRB \<Rightarrow> indexRB (unindexRB c oldRB) newRB))"

definition OnResourceBindingDelete :: "schedulerCache \<Rightarrow> obj \<Rightarrow> schedulerCache" where
  "OnResourceBindingDelete c ob =
     (case getRBFromObj ob of None \<Rightarrow> c | Some rb \<Rightarrow> unindexRB c rb)"

text \<open>An event of the informer, and the handler that serves it.\<close>

datatype event = Add obj | Update obj obj | Delete obj

fun apply_event :: "schedulerCache \<Rightarrow> event \<Rightarrow> schedulerCache" where
  "apply_event c (Add ob) = OnResourceBindingAdd c ob"
| "apply_event c (Update oldObj newObj) = OnResourceBindingUpdate c oldObj newObj"
| "apply_event c (Delete ob) = OnResourceBindingDelete c ob"

fun run_events :: "schedulerCache \<Rightarrow> event list \<Rightarrow> schedulerCache" where
  "run_events c [] = c"
| "run_events c (e # es) = run_events (apply_event c e) es"

section \<open>Snapshot and filter, with Go values read as values\<close>

record Cluster =
  ClusterName :: string
  Ready :: bool

text \<open>
  \<^verbatim>\<open>Snapshot\<close>: the two maps are nil (\<open>None\<close>) in \<^verbatim>\<open>Snapshot{}\<close> and whenever the
  feature gate is off.
\<close>

record Snapshot =
  clusters :: "Cluster list"
  snapClustersByRB :: "(string \<rightharpoonup> string set) option"
  snapAffinityGroups :: "(AntiKey \<rightharpoonup> string list) option"

definition NewEmptySnapshot :: Snapshot where
  "NewEmptySnapshot = \<lparr>clusters = [], snapClustersByRB = None, snapAffinityGroups = None\<rparr>"

text \<open>
  \<^verbatim>\<open>schedulerCache.Snapshot\<close>. The feature gate and the answer of the cluster lister
  (\<open>None\<close> when it fails) are arguments. Copying a slice or a set yields the same value.
\<close>

definition TakeSnapshot :: "bool \<Rightarrow> Cluster list option \<Rightarrow> schedulerCache \<Rightarrow> Snapshot" where
  "TakeSnapshot gate listed c =
     (case listed of
        None \<Rightarrow> NewEmptySnapshot
      | Some cls \<Rightarrow>
          if gate
          then \<lparr>clusters = cls,
                snapClustersByRB = Some (clustersByRB c),
                snapAffinityGroups = Some (affinityGroups c)\<rparr>
          else \<lparr>clusters = cls, snapClustersByRB = None, snapAffinityGroups = None\<rparr>)"

definition GetPeerResourceBindings :: "Snapshot \<Rightarrow> string \<Rightarrow> string \<Rightarrow> string \<Rightarrow> string list" where
  "GetPeerResourceBindings s ns key val =
     (case snapAffinityGroups s of
        None \<Rightarrow> []
      | Some m \<Rightarrow> slice_at m (MakeAntiKey ns key val))"

definition GetClustersForResourceBinding :: "Snapshot \<Rightarrow> string \<Rightarrow> string set" where
  "GetClustersForResourceBinding s rbID =
     (case snapClustersByRB s of None \<Rightarrow> {} | Some m \<Rightarrow> set_at m rbID)"

definition NumOfClusters :: "Snapshot \<Rightarrow> nat" where
  "NumOfClusters s = length (clusters s)"

definition GetClusters :: "Snapshot \<Rightarrow> Cluster list" where
  "GetClusters s = clusters s"

definition GetReadyClusters :: "Snapshot \<Rightarrow> Cluster list" where
  "GetReadyClusters s = filter Ready (clusters s)"

definition GetReadyClusterNames :: "Snapshot \<Rightarrow> string set" where
  "GetReadyClusterNames s = ClusterName ` set (filter Ready (clusters s))"

definition GetCluster :: "Snapshot \<Rightarrow> string \<Rightarrow> Cluster option" where
  "GetCluster s clusterName = find (\<lambda>c. ClusterName c = clusterName) (clusters s)"

datatype Code = Success | Unschedulable | Error

record Result =
  code :: Code
  reasons :: "string list"

definition NewResult :: "Code \<Rightarrow> string list \<Rightarrow> Result" where
  "NewResult cd rs = \<lparr>code = cd, reasons = rs\<rparr>"

text \<open>The loop of \<^verbatim>\<open>Filter\<close> over the peers, leaving at the first conflict.\<close>

fun check_peers :: "Snapshot \<Rightarrow> string \<Rightarrow> Cluster \<Rightarrow> string list \<Rightarrow> Result" where
  "check_peers snapshot thisID cluster [] = NewResult Success []"
| "check_peers snapshot thisID cluster (peer # rest) =
     (if peer = thisID then check_peers snapshot thisID cluster rest
      else if ClusterName cluster \<in> GetClustersForResourceBinding snapshot peer
      then NewResult Unschedulable [''cluster violates this resource bindings anti-affinity term'']
      else check_peers snapshot thisID cluster rest)"

text \<open>
  \<^verbatim>\<open>AntiAffinity.Filter\<close>. The feature gate is the first argument; the snapshot pointer
  may be nil.
\<close>

definition Filter :: "bool \<Rightarrow> ResourceBindingSpec \<Rightarrow> Cluster \<Rightarrow> Snapshot option \<Rightarrow> Result" where
  "Filter gate bindingSpec cluster snapshot =
     (if \<not> gate then NewResult Success []
      else case WorkloadAffinity (Placement bindingSpec) of
        None \<Rightarrow> NewResult Success []
      | Some term \<Rightarrow>
          (case snapshot of
             None \<Rightarrow> NewResult Error [''anti-affinity snapshot is nil'']
           | Some snap \<Rightarrow>
               let antiAffinityGroupLabel = AffinityLabelKey term;
                   antiAffinityLabelValue = label_at (AffinityGroupLabel (Resource bindingSpec)) antiAffinityGroupLabel
               in if antiAffinityLabelValue = '''' then NewResult Success []
                  else
                    let thisID = ResNamespace (Resource bindingSpec) @ ''/'' @ ResName (Resource bindingSpec);
                        peerRBs = GetPeerResourceBindings snap (ResNamespace (Resource bindingSpec))
                                    (AffinityLabelKey term) antiAffinityLabelValue
                    in check_peers snap thisID cluster peerRBs))"

section \<open>The specification's vocabulary\<close>

text \<open>
  The AffinityKey a binding projects to, in the specification's words: the triple of the
  binding's namespace, the directive's label key and the workload's value for that label,
  present when the directive is there with a non-empty key and the value is non-empty.
\<close>

definition affinity_key :: "ResourceBinding \<Rightarrow> AntiKey option" where
  "affinity_key rb =
     (case WorkloadAffinity (Placement (Spec rb)) of
        None \<Rightarrow> None
      | Some t \<Rightarrow>
          if AffinityLabelKey t \<noteq> '''' \<and> label_at (AffinityGroupLabel (Resource (Spec rb))) (AffinityLabelKey t) \<noteq> ''''
          then Some (AntiKey (Namespace rb) (AffinityLabelKey t)
                      (label_at (AffinityGroupLabel (Resource (Spec rb))) (AffinityLabelKey t)))
          else None)"

text \<open>Eligibility, in the specification's words: its three conditions.\<close>

definition eligible :: "ResourceBinding \<Rightarrow> bool" where
  "eligible rb \<longleftrightarrow>
     Clusters (Spec rb) \<noteq> [] \<and>
     (case WorkloadAffinity (Placement (Spec rb)) of
        None \<Rightarrow> False
      | Some t \<Rightarrow> AffinityLabelKey t \<noteq> '''' \<and>
          label_at (AffinityGroupLabel (Resource (Spec rb))) (AffinityLabelKey t) \<noteq> '''')"

definition target_names :: "ResourceBinding \<Rightarrow> string set" where
  "target_names rb = TargetName ` set (Clusters (Spec rb))"

text \<open>Bindings and clusters of the specification's scenarios.\<close>

definition mk_binding :: "string \<Rightarrow> string \<Rightarrow> string option \<Rightarrow> (string \<rightharpoonup> string) \<Rightarrow> string list \<Rightarrow> ResourceBinding" where
  "mk_binding ns nm key labels targets =
     \<lparr>Namespace = ns, Name = nm,
      Spec = \<lparr>Resource = \<lparr>ResNamespace = ns, ResName = nm, AffinityGroupLabel = labels\<rparr>,
              Placement = \<lparr>WorkloadAffinity = map_option (\<lambda>k. \<lparr>AffinityLabelKey = k\<rparr>) key\<rparr>,
              Clusters = map (\<lambda>t. \<lparr>TargetName = t\<rparr>) targets\<rparr>\<rparr>"

definition job_a :: ResourceBinding where
  "job_a = mk_binding ''ns1'' ''job-a'' (Some ''karmada.io/group'') [''karmada.io/group'' \<mapsto> ''alpha''] [''clusterX'']"

definition job_b :: ResourceBinding where
  "job_b = mk_binding ''ns1'' ''job-b'' (Some ''karmada.io/group'') [''karmada.io/group'' \<mapsto> ''alpha''] []"

definition clusterX :: Cluster where
  "clusterX = \<lparr>ClusterName = ''clusterX'', Ready = True\<rparr>"

definition job_a_bare :: ResourceBinding where
  "job_a_bare = mk_binding ''ns1'' ''job-a'' None [''karmada.io/group'' \<mapsto> ''alpha''] [''clusterX'']"

definition job_a_moved :: ResourceBinding where
  "job_a_moved = mk_binding ''ns1'' ''job-a'' (Some ''karmada.io/group'') [''karmada.io/group'' \<mapsto> ''alpha''] [''clusterY'']"

definition job_c :: ResourceBinding where
  "job_c = mk_binding ''ns1'' ''job-c'' (Some ''karmada.io/group'') [''karmada.io/group'' \<mapsto> ''alpha''] [''clusterY'']"

text \<open>
  A binding whose name is not the name of its workload: the binding
  \<^verbatim>\<open>ns1/job-a-deployment\<close> of the workload \<^verbatim>\<open>ns1/job-a\<close>, placed on \<^verbatim>\<open>clusterX\<close>.
\<close>

definition job_a_deployment :: ResourceBinding where
  "job_a_deployment =
     \<lparr>Namespace = ''ns1'', Name = ''job-a-deployment'',
      Spec = \<lparr>Resource = \<lparr>ResNamespace = ''ns1'', ResName = ''job-a'',
                           AffinityGroupLabel = [''karmada.io/group'' \<mapsto> ''alpha'']\<rparr>,
              Placement = \<lparr>WorkloadAffinity = Some \<lparr>AffinityLabelKey = ''karmada.io/group''\<rparr>\<rparr>,
              Clusters = [\<lparr>TargetName = ''clusterX''\<rparr>]\<rparr>\<rparr>"

text \<open>
  The index after \<^verbatim>\<open>ns1/job-a\<close> was added, and after \<^verbatim>\<open>ns1/job-c\<close> of the same group
  was added as well.
\<close>

definition cache_a :: schedulerCache where
  "cache_a = OnResourceBindingAdd NewCache (PtrResourceBinding (Some job_a))"

definition cache_ac :: schedulerCache where
  "cache_ac = OnResourceBindingAdd cache_a (PtrResourceBinding (Some job_c))"

section \<open>The informer's contract\<close>

text \<open>
  The handlers are fed by a shared informer. Its store holds, under each id, the binding
  it delivered last: an Add comes only for an id the store does not hold, an Update carries
  as its old object the binding held under that id and a new one of the same id, and a
  Delete (tombstones included) carries the binding held. \<open>deliver\<close> is the store after an
  event that keeps to this, and \<open>None\<close> for an event that does not; payloads that the
  handlers drop do not touch the store.
\<close>

type_synonym store = "string \<rightharpoonup> ResourceBinding"

fun deliver :: "store \<Rightarrow> event \<Rightarrow> store option" where
  "deliver st (Add ob) =
     (case getRBFromObj ob of
        None \<Rightarrow> Some st
      | Some rb \<Rightarrow> if st (rbID_of rb) = None then Some (st(rbID_of rb \<mapsto> rb)) else None)"
| "deliver st (Update oldObj newObj) =
     (case getRBFromObj oldObj of
        None \<Rightarrow> Some st
      | Some oldRB \<Rightarrow>
          (case getRBFromObj newObj of
             None \<Rightarrow> Some st
           | Some newRB \<Rightarrow>
               if st (rbID_of oldRB) = Some oldRB \<and> rbID_of newRB = rbID_of oldRB
               then Some (st(rbID_of newRB \<mapsto> newRB)) else None))"
| "deliver st (Delete ob) =
     (case getRBFromObj ob of
        None \<Rightarrow> Some st
      | Some rb \<Rightarrow> if st (rbID_of rb) = Some rb then Some (st(rbID_of rb := None)) else None)"

fun deliver_all :: "store \<Rightarrow> event list \<Rightarrow> store option" where
  "deliver_all st [] = Some st"
| "deliver_all st (e # es) = (case deliver st e of None \<Rightarrow> None | Some st' \<Rightarrow> deliver_all st' es)"

text \<open>
  The index mirrors the store: the invariants of section 3 of the specification. Every
  list is duplicate-free and non-empty, an id is in the list of a key exactly when the
  store holds an eligible binding of that key under it, and the cluster sets are those of
  the eligible bindings held.
\<close>

definition mirrors :: "store \<Rightarrow> schedulerCache \<Rightarrow> bool" where
  "mirrors st c \<longleftrightarrow>
     (\<forall>i b. st i = Some b \<longrightarrow> rbID_of b = i) \<and>
     (\<forall>k. distinct (slice_at (affinityGroups c) k)) \<and>
     (\<forall>k. affinityGroups c k \<noteq> Some []) \<and>
     (\<forall>k i. i \<in> set (slice_at (affinityGroups c) k) \<longleftrightarrow>
        (\<exists>b. st i = Some b \<and> eligible b \<and> affinity_key b = Some k)) \<and>
     (\<forall>i. clustersByRB c i =
        (case st i of
           None \<Rightarrow> None
         | Some b \<Rightarrow> if eligible b then Some (target_names b) else None))"

text \<open>The states that an update by the same binding leaves as they are.\<close>

definition settled :: "schedulerCache \<Rightarrow> ResourceBinding \<Rightarrow> bool" where
  "settled c x \<longleftrightarrow>
     (case affinity_key x of
        None \<Rightarrow> True
      | Some k \<Rightarrow>
          if Clusters (Spec x) = []
          then rbID_of x \<notin> set (slice_at (affinityGroups c) k) \<and> affinityGroups c k \<noteq> Some [] \<and>
               clustersByRB c (rbID_of x) = None
          else slice_at (affinityGroups c) k \<noteq> [] \<and> last (slice_at (affinityGroups c) k) = rbID_of x \<and>
               rbID_of x \<notin> set (butlast (slice_at (affinityGroups c) k)) \<and>
               clustersByRB c (rbID_of x) = Some (target_names x))"

text \<open>The index holds the binding as it was delivered, its id once in its list.\<close>

definition held :: "schedulerCache \<Rightarrow> ResourceBinding \<Rightarrow> bool" where
  "held c x \<longleftrightarrow>
     (case affinity_key x of
        None \<Rightarrow> True
      | Some k \<Rightarrow>
          if Clusters (Spec x) = []
          then rbID_of x \<notin> set (slice_at (affinityGroups c) k) \<and> clustersByRB c (rbID_of x) = None
          else count_list (slice_at (affinityGroups c) k) (rbID_of x) = 1 \<and>
               clustersByRB c (rbID_of x) = Some (target_names x))"

section \<open>The index and the snapshot on a heap\<close>

text \<open>
  Slices, maps and sets are references in Go: \<^verbatim>\<open>append\<close> may write into the backing
  array of its argument, \<^verbatim>\<open>unindexRB\<close> filters a list in place
  (\<^verbatim>\<open>filtered := slice[:0]\<close>), and a map written through one reference is seen through
  every other. To state what a snapshot shares with the index, the same functions are
  given once more over an explicit store of objects. One allocator hands out addresses;
  each kind of object has its own table. A Go map object is a finite table of entries
  (its iteration order is the order of the list); a slice is a header of the address of
  its backing array, its length and its capacity.
\<close>

record slice =
  base :: nat
  len :: nat
  cap :: nat

definition nil_slice :: slice where
  "nil_slice = \<lparr>base = 0, len = 0, cap = 0\<rparr>"

record heap =
  arrayObjs :: "nat \<Rightarrow> string list"
  setObjs :: "nat \<Rightarrow> string set"
  groupMapObjs :: "nat \<Rightarrow> (AntiKey \<times> slice) list"
  rbMapObjs :: "nat \<Rightarrow> (string \<times> nat) list"
  clusterObjs :: "nat \<Rightarrow> Cluster"
  nextAddr :: nat

text \<open>The elements of a slice: the first \<open>len\<close> cells of its backing array.\<close>

definition read_slice :: "heap \<Rightarrow> slice \<Rightarrow> string list" where
  "read_slice h s = take (len s) (arrayObjs h (base s))"

text \<open>
  \<^verbatim>\<open>append(s, x)\<close>: within the capacity the element is written into the backing array of
  \<open>s\<close>; otherwise a new, sufficiently large array is allocated and the elements are copied.
  How much larger is the runtime's choice, the argument \<open>grow\<close>.
\<close>

definition append_h :: "(nat \<Rightarrow> nat) \<Rightarrow> heap \<Rightarrow> slice \<Rightarrow> string \<Rightarrow> slice \<times> heap" where
  "append_h grow h s x =
     (if len s < cap s
      then (s\<lparr>len := Suc (len s)\<rparr>,
            h\<lparr>arrayObjs := (arrayObjs h)(base s := (arrayObjs h (base s))[len s := x])\<rparr>)
      else
        let n = max (Suc (len s)) (grow (cap s));
            a = nextAddr h
        in (\<lparr>base = a, len = Suc (len s), cap = n\<rparr>,
            h\<lparr>arrayObjs := (arrayObjs h)(a := read_slice h s @ [x] @ replicate (n - Suc (len s)) ''''),
              nextAddr := Suc a\<rparr>))"

text \<open>\<^verbatim>\<open>vv := make([]string, len(v)); copy(vv, v)\<close>.\<close>

definition copy_slice_h :: "heap \<Rightarrow> slice \<Rightarrow> slice \<times> heap" where
  "copy_slice_h h v =
     (let a = nextAddr h
      in (\<lparr>base = a, len = len v, cap = len v\<rparr>,
          h\<lparr>arrayObjs := (arrayObjs h)(a := take (len v) (read_slice h v @ replicate (len v) '''')),
            nextAddr := Suc a\<rparr>))"

text \<open>\<^verbatim>\<open>sets.New[string]()\<close> and \<^verbatim>\<open>Insert\<close>.\<close>

definition new_set_h :: "heap \<Rightarrow> nat \<times> heap" where
  "new_set_h h = (nextAddr h, h\<lparr>setObjs := (setObjs h)(nextAddr h := {}), nextAddr := Suc (nextAddr h)\<rparr>)"

definition insert_h :: "heap \<Rightarrow> nat \<Rightarrow> string \<Rightarrow> heap" where
  "insert_h h s x = h\<lparr>setObjs := (setObjs h)(s := insert x (setObjs h s))\<rparr>"

fun insert_targets_h :: "TargetCluster list \<Rightarrow> nat \<Rightarrow> heap \<Rightarrow> heap" where
  "insert_targets_h [] clusterSet h = h"
| "insert_targets_h (target # rest) clusterSet h =
     insert_targets_h rest clusterSet (insert_h h clusterSet (TargetName target))"

text \<open>
  The cache holds the references of its two maps; \<^verbatim>\<open>NewCache\<close> makes the maps, and
  the fields are never assigned again.
\<close>

record cacheRefs =
  affinityGroupsRef :: nat
  clustersByRBRef :: nat

definition NewCache_h :: "heap \<Rightarrow> cacheRefs \<times> heap" where
  "NewCache_h h =
     (\<lparr>affinityGroupsRef = nextAddr h, clustersByRBRef = Suc (nextAddr h)\<rparr>,
      h\<lparr>groupMapObjs := (groupMapObjs h)(nextAddr h := []),
        rbMapObjs := (rbMapObjs h)(Suc (nextAddr h) := []),
        nextAddr := Suc (Suc (nextAddr h))\<rparr>)"

definition slice_of :: "(AntiKey \<times> slice) list \<Rightarrow> AntiKey \<Rightarrow> slice" where
  "slice_of m k = (case map_of m k of None \<Rightarrow> nil_slice | Some s \<Rightarrow> s)"

definition store_group_h :: "heap \<Rightarrow> nat \<Rightarrow> AntiKey \<Rightarrow> slice \<Rightarrow> heap" where
  "store_group_h h m k s = h\<lparr>groupMapObjs := (groupMapObjs h)(m := AList.update k s (groupMapObjs h m))\<rparr>"

definition delete_group_h :: "heap \<Rightarrow> nat \<Rightarrow> AntiKey \<Rightarrow> heap" where
  "delete_group_h h m k = h\<lparr>groupMapObjs := (groupMapObjs h)(m := AList.delete k (groupMapObjs h m))\<rparr>"

definition store_rb_h :: "heap \<Rightarrow> nat \<Rightarrow> string \<Rightarrow> nat \<Rightarrow> heap" where
  "store_rb_h h m i s = h\<lparr>rbMapObjs := (rbMapObjs h)(m := AList.update i s (rbMapObjs h m))\<rparr>"

definition delete_rb_h :: "heap \<Rightarrow> nat \<Rightarrow> string \<Rightarrow> heap" where
  "delete_rb_h h m i = h\<lparr>rbMapObjs := (rbMapObjs h)(m := AList.delete i (rbMapObjs h m))\<rparr>"

definition indexRB_h :: "(nat \<Rightarrow> nat) \<Rightarrow> cacheRefs \<Rightarrow> heap \<Rightarrow> ResourceBinding \<Rightarrow> heap" where
  "indexRB_h grow c h rb =
     (if length (Clusters (Spec rb)) = 0 then h
      else case WorkloadAffinity (Placement (Spec rb)) of
        None \<Rightarrow> h
      | Some affinityTerm \<Rightarrow>
          if AffinityLabelKey affinityTerm = '''' then h
          else
            let groupValue = label_at (AffinityGroupLabel (Resource (Spec rb))) (AffinityLabelKey affinityTerm)
            in if groupValue = '''' then h
               else
                 let rbID = rbID_of rb;
                     (clusterSet, h1) = new_set_h h;
                     h2 = insert_targets_h (Clusters (Spec rb)) clusterSet h1;
                     key = MakeAntiKey (Namespace rb) (AffinityLabelKey affinityTerm) groupValue;
                     (appended, h3) = append_h grow h2 (slice_of (groupMapObjs h2 (affinityGroupsRef c)) key) rbID;
                     h4 = store_group_h h3 (affinityGroupsRef c) key appended
                 in store_rb_h h4 (clustersByRBRef c) rbID clusterSet)"

text \<open>
  The loop of \<^verbatim>\<open>unindexRB\<close>: \<^verbatim>\<open>range\<close> reads cell \<open>i\<close> of the backing array of
  \<open>slice\<close> when it comes to it, and \<open>filtered\<close> starts as \<^verbatim>\<open>slice[:0]\<close>, on the same array.
\<close>

function filter_ids_h :: "(nat \<Rightarrow> nat) \<Rightarrow> string \<Rightarrow> slice \<Rightarrow> nat \<Rightarrow> slice \<Rightarrow> heap \<Rightarrow> slice \<times> heap" where
  "filter_ids_h grow rbID sl i filtered h =
     (if i < len sl
      then if arrayObjs h (base sl) ! i \<noteq> rbID
           then filter_ids_h grow rbID sl (Suc i)
                  (fst (append_h grow h filtered (arrayObjs h (base sl) ! i)))
                  (snd (append_h grow h filtered (arrayObjs h (base sl) ! i)))
           else filter_ids_h grow rbID sl (Suc i) filtered h
      else (filtered, h))"
  by pat_completeness auto
termination
  by (relation "measure (\<lambda>(grow, rbID, sl, i, filtered, h). len sl - i)") auto

definition unindexRB_h :: "(nat \<Rightarrow> nat) \<Rightarrow> cacheRefs \<Rightarrow> heap \<Rightarrow> ResourceBinding \<Rightarrow> heap" where
  "unindexRB_h grow c h rb =
     (case WorkloadAffinity (Placement (Spec rb)) of
        None \<Rightarrow> h
      | Some affinityTerm \<Rightarrow>
          if AffinityLabelKey affinityTerm = '''' then h
          else
            let groupValue = label_at (AffinityGroupLabel (Resource (Spec rb))) (AffinityLabelKey affinityTerm)
            in if groupValue = '''' then h
               else
                 let rbID = rbID_of rb;
                     key = MakeAntiKey (Namespace rb) (AffinityLabelKey affinityTerm) groupValue;
                     h1 =
                       (case map_of (groupMapObjs h (affinityGroupsRef c)) key of
                          None \<Rightarrow> h
                        | Some sl \<Rightarrow>
                            let (filtered, h') = filter_ids_h grow rbID sl 0 (sl\<lparr>len := 0\<rparr>) h
                            in if len filtered = 0 then delete_group_h h' (affinityGroupsRef c) key
                               else store_group_h h' (affinityGroupsRef c) key filtered)
                 in delete_rb_h h1 (clustersByRBRef c) rbID)"

definition OnResourceBindingAdd_h :: "(nat \<Rightarrow> nat) \<Rightarrow> cacheRefs \<Rightarrow> heap \<Rightarrow> obj \<Rightarrow> heap" where
  "OnResourceBindingAdd_h grow c h ob =
     (case getRBFromObj ob of None \<Rightarrow> h | Some rb \<Rightarrow> indexRB_h grow c h rb)"

definition OnResourceBindingUpdate_h :: "(nat \<Rightarrow> nat) \<Rightarrow> cacheRefs \<Rightarrow> heap \<Rightarrow> obj \<Rightarrow> obj \<Rightarrow> heap" where
  "OnResourceBindingUpdate_h grow c h oldObj newObj =
     (case getRBFromObj oldObj of
        None \<Rightarrow> h
      | Some oldRB \<Rightarrow>
          (case getRBFromObj newObj of
             None \<Rightarrow> h
           | Some newRB \<Rightarrow> indexRB_h grow c (unindexRB_h grow c h oldRB) newRB))"

definition OnResourceBindingDelete_h :: "(nat \<Rightarrow> nat) \<Rightarrow> cacheRefs \<Rightarrow> heap \<Rightarrow> obj \<Rightarrow> heap" where
  "OnResourceBindingDelete_h grow c h ob =
     (case getRBFromObj ob of None \<Rightarrow> h | Some rb \<Rightarrow> unindexRB_h grow c h rb)"

fun apply_event_h :: "(nat \<Rightarrow> nat) \<Rightarrow> cacheRefs \<Rightarrow> heap \<Rightarrow> event \<Rightarrow> heap" where
  "apply_event_h grow c h (Add ob) = OnResourceBindingAdd_h grow c h ob"
| "apply_event_h grow c h (Update oldObj newObj) = OnResourceBindingUpdate_h grow c h oldObj newObj"
| "apply_event_h grow c h (Delete ob) = OnResourceBindingDelete_h grow c h ob"

fun run_events_h :: "(nat \<Rightarrow> nat) \<Rightarrow> cacheRefs \<Rightarrow> heap \<Rightarrow> event list \<Rightarrow> heap" where
  "run_events_h grow c h [] = h"
| "run_events_h grow c h (e # es) = run_events_h grow c (apply_event_h grow c h e) es"

text \<open>
  The snapshot struct: the pointers of its clusters and the references of its two maps,
  nil (\<open>None\<close>) in \<^verbatim>\<open>Snapshot{}\<close>.
\<close>

record snapshotRefs =
  clustersPtrs :: "nat list"
  clustersByRBSnap :: "nat option"
  affinityGroupsSnap :: "nat option"

definition NewEmptySnapshot_h :: snapshotRefs where
  "NewEmptySnapshot_h = \<lparr>clustersPtrs = [], clustersByRBSnap = None, affinityGroupsSnap = None\<rparr>"

text \<open>\<^verbatim>\<open>out.clusters = append(out.clusters, cluster.DeepCopy())\<close>, for every listed cluster.\<close>

fun deep_copy_clusters_h :: "nat list \<Rightarrow> nat list \<Rightarrow> heap \<Rightarrow> nat list \<times> heap" where
  "deep_copy_clusters_h [] out h = (out, h)"
| "deep_copy_clusters_h (cluster # rest) out h =
     deep_copy_clusters_h rest (out @ [nextAddr h])
       (h\<lparr>clusterObjs := (clusterObjs h)(nextAddr h := clusterObjs h cluster), nextAddr := Suc (nextAddr h)\<rparr>)"

text \<open>The loop over \<^verbatim>\<open>c.affinityGroups\<close>: every list is copied into a new array.\<close>

fun copy_groups_h :: "(AntiKey \<times> slice) list \<Rightarrow> nat \<Rightarrow> heap \<Rightarrow> heap" where
  "copy_groups_h [] out h = h"
| "copy_groups_h ((k, v) # rest) out h =
     (let (vv, h1) = copy_slice_h h v
      in copy_groups_h rest out (store_group_h h1 out k vv))"

text \<open>
  The loop over \<^verbatim>\<open>c.clustersByRB\<close>: a new set for every binding, filled with the items
  of the binding's set.
\<close>

fun copy_sets_h :: "(string \<times> nat) list \<Rightarrow> nat \<Rightarrow> heap \<Rightarrow> heap" where
  "copy_sets_h [] out h = h"
| "copy_sets_h ((rbID, st) # rest) out h =
     (let (s, h1) = new_set_h h;
          h2 = h1\<lparr>setObjs := (setObjs h1)(s := setObjs h1 s \<union> setObjs h1 st)\<rparr>
      in copy_sets_h rest out (store_rb_h h2 out rbID s))"

definition Snapshot_h :: "bool \<Rightarrow> nat list option \<Rightarrow> cacheRefs \<Rightarrow> heap \<Rightarrow> snapshotRefs \<times> heap" where
  "Snapshot_h gate listed c h =
     (case listed of
        None \<Rightarrow> (NewEmptySnapshot_h, h)
      | Some cls \<Rightarrow>
          let (ptrs, h1) = deep_copy_clusters_h cls [] h
          in if gate
             then
               let groups = nextAddr h1;
                   h2 = h1\<lparr>groupMapObjs := (groupMapObjs h1)(groups := []), nextAddr := Suc groups\<rparr>;
                   h3 = copy_groups_h (groupMapObjs h2 (affinityGroupsRef c)) groups h2;
                   byRB = nextAddr h3;
                   h4 = h3\<lparr>rbMapObjs := (rbMapObjs h3)(byRB := []), nextAddr := Suc byRB\<rparr>;
                   h5 = copy_sets_h (rbMapObjs h4 (clustersByRBRef c)) byRB h4
               in (\<lparr>clustersPtrs = ptrs, clustersByRBSnap = Some byRB, affinityGroupsSnap = Some groups\<rparr>, h5)
             else (\<lparr>clustersPtrs = ptrs, clustersByRBSnap = None, affinityGroupsSnap = None\<rparr>, h1))"

text \<open>The accessors of the snapshot; what a caller sees of a slice or a set is read through the heap.\<close>

definition GetPeerResourceBindings_h :: "heap \<Rightarrow> snapshotRefs \<Rightarrow> string \<Rightarrow> string \<Rightarrow> string \<Rightarrow> slice" where
  "GetPeerResourceBindings_h h s ns key val =
     (case affinityGroupsSnap s of
        None \<Rightarrow> nil_slice
      | Some m \<Rightarrow> slice_of (groupMapObjs h m) (MakeAntiKey ns key val))"

definition GetClustersForResourceBinding_h :: "heap \<Rightarrow> snapshotRefs \<Rightarrow> string \<Rightarrow> nat option" where
  "GetClustersForResourceBinding_h h s rbID =
     (case clustersByRBSnap s of None \<Rightarrow> None | Some m \<Rightarrow> map_of (rbMapObjs h m) rbID)"

definition read_set :: "heap \<Rightarrow> nat option \<Rightarrow> string set" where
  "read_set h s = (case s of None \<Rightarrow> {} | Some r \<Rightarrow> setObjs h r)"

definition NumOfClusters_h :: "snapshotRefs \<Rightarrow> nat" where
  "NumOfClusters_h s = length (clustersPtrs s)"

definition GetClusters_h :: "snapshotRefs \<Rightarrow> nat list" where
  "GetClusters_h s = clustersPtrs s"

definition GetReadyClusters_h :: "heap \<Rightarrow> snapshotRefs \<Rightarrow> nat list" where
  "GetReadyClusters_h h s = filter (\<lambda>c. Ready (clusterObjs h c)) (clustersPtrs s)"

definition GetReadyClusterNames_h :: "heap \<Rightarrow> snapshotRefs \<Rightarrow> string set" where
  "GetReadyClusterNames_h h s =
     (\<lambda>c. ClusterName (clusterObjs h c)) ` set (filter (\<lambda>c. Ready (clusterObjs h c)) (clustersPtrs s))"

definition GetCluster_h :: "heap \<Rightarrow> snapshotRefs \<Rightarrow> string \<Rightarrow> nat option" where
  "GetCluster_h h s clusterName = find (\<lambda>c. ClusterName (clusterObjs h c) = clusterName) (clustersPtrs s)"

subsection \<open>What a step may write, and what a snapshot reads\<close>

text \<open>
  Two heaps hold the same object at an address; a step writes only at addresses of a set
  or at addresses that were free before it.
\<close>

definition same_obj :: "heap \<Rightarrow> heap \<Rightarrow> nat \<Rightarrow> bool" where
  "same_obj h h' a \<longleftrightarrow>
     arrayObjs h' a = arrayObjs h a \<and> setObjs h' a = setObjs h a \<and>
     groupMapObjs h' a = groupMapObjs h a \<and> rbMapObjs h' a = rbMapObjs h a \<and>
     clusterObjs h' a = clusterObjs h a"

definition writes_only :: "nat set \<Rightarrow> heap \<Rightarrow> heap \<Rightarrow> bool" where
  "writes_only A h h' \<longleftrightarrow>
     nextAddr h \<le> nextAddr h' \<and> (\<forall>a. a < nextAddr h \<and> a \<notin> A \<longrightarrow> same_obj h h' a)"

text \<open>
  The addresses the index owns: its two maps and the backing arrays of its lists. The
  handlers keep them below the allocator's mark.
\<close>

definition cache_bases :: "heap \<Rightarrow> cacheRefs \<Rightarrow> nat set" where
  "cache_bases h c = (\<lambda>e. base (snd e)) ` set (groupMapObjs h (affinityGroupsRef c))"

definition owned :: "heap \<Rightarrow> cacheRefs \<Rightarrow> nat set" where
  "owned h c = {affinityGroupsRef c, clustersByRBRef c} \<union> cache_bases h c"

definition cache_ok :: "heap \<Rightarrow> cacheRefs \<Rightarrow> bool" where
  "cache_ok h c \<longleftrightarrow> owned h c \<subseteq> {..<nextAddr h}"

definition step_ok :: "cacheRefs \<Rightarrow> heap \<Rightarrow> heap \<Rightarrow> bool" where
  "step_ok c h h' \<longleftrightarrow>
     writes_only (owned h c) h h' \<and> owned h' c \<subseteq> owned h c \<union> {nextAddr h..<nextAddr h'}"

text \<open>
  The addresses a snapshot reads through: its clusters, its two maps, the backing arrays
  of its lists and its sets. \<open>snapshot_view\<close> is everything a snapshot shows, read
  through the heap: the snapshot as a value.
\<close>

definition snap_addrs :: "heap \<Rightarrow> snapshotRefs \<Rightarrow> nat set" where
  "snap_addrs h s =
     set (clustersPtrs s) \<union>
     (case affinityGroupsSnap s of
        None \<Rightarrow> {}
      | Some m \<Rightarrow> insert m ((\<lambda>e. base (snd e)) ` set (groupMapObjs h m))) \<union>
     (case clustersByRBSnap s of
        None \<Rightarrow> {}
      | Some m \<Rightarrow> insert m (snd ` set (rbMapObjs h m)))"

definition snapshot_view :: "heap \<Rightarrow> snapshotRefs \<Rightarrow> Snapshot" where
  "snapshot_view h s =
     \<lparr>clusters = map (clusterObjs h) (clustersPtrs s),
      snapClustersByRB =
        map_option (\<lambda>m i. map_option (setObjs h) (map_of (rbMapObjs h m) i)) (clustersByRBSnap s),
      snapAffinityGroups =
        map_option (\<lambda>m k. map_option (read_slice h) (map_of (groupMapObjs h m) k)) (affinityGroupsSnap s)\<rparr>"

definition separate :: "heap \<Rightarrow> snapshotRefs \<Rightarrow> cacheRefs \<Rightarrow> bool" where
  "separate h s c \<longleftrightarrow> snap_addrs h s \<subseteq> {..<nextAddr h} \<and> snap_addrs h s \<inter> owned h c = {}"

section \<open>Basic facts about the index operations\<close>

lemma insert_targets_eq: "insert_targets ts s = s \<union> TargetName ` set ts"
  by (induction ts arbitrary: s) auto

lemma filter_ids_eq: "filter_ids rbID xs acc = acc @ filter (\<lambda>i. i \<noteq> rbID) xs"
  by (induction xs arbitrary: acc) auto

lemma eligible_iff: "eligible rb \<longleftrightarrow> Clusters (Spec rb) \<noteq> [] \<and> affinity_key rb \<noteq> None"
  by (auto simp: eligible_def affinity_key_def split: option.splits)

lemma indexRB_eq:
  "indexRB c rb =
     (case affinity_key rb of
        None \<Rightarrow> c
      | Some key \<Rightarrow>
          if Clusters (Spec rb) = [] then c
          else c\<lparr>affinityGroups := (affinityGroups c)(key \<mapsto> slice_at (affinityGroups c) key @ [rbID_of rb]),
                clustersByRB := (clustersByRB c)(rbID_of rb \<mapsto> target_names rb)\<rparr>)"
  by (simp add: indexRB_def affinity_key_def MakeAntiKey_def Let_def insert_targets_eq
      target_names_def split: option.splits)

lemma unindexRB_eq:
  "unindexRB c rb =
     (case affinity_key rb of
        None \<Rightarrow> c
      | Some key \<Rightarrow>
          c\<lparr>affinityGroups :=
               (case affinityGroups c key of
                  None \<Rightarrow> affinityGroups c
                | Some slice \<Rightarrow>
                    if filter (\<lambda>i. i \<noteq> rbID_of rb) slice = [] then (affinityGroups c)(key := None)
                    else (affinityGroups c)(key \<mapsto> filter (\<lambda>i. i \<noteq> rbID_of rb) slice)),
             clustersByRB := (clustersByRB c)(rbID_of rb := None)\<rparr>)"
  by (simp add: unindexRB_def affinity_key_def MakeAntiKey_def Let_def filter_ids_eq
      split: option.splits)

lemma slice_at_indexRB:
  "slice_at (affinityGroups (indexRB c rb)) k =
     (if eligible rb \<and> affinity_key rb = Some k
      then slice_at (affinityGroups c) k @ [rbID_of rb]
      else slice_at (affinityGroups c) k)"
  by (auto simp: indexRB_eq eligible_iff slice_at_def split: option.splits)

lemma slice_at_unindexRB:
  "slice_at (affinityGroups (unindexRB c rb)) k =
     (if affinity_key rb = Some k
      then filter (\<lambda>i. i \<noteq> rbID_of rb) (slice_at (affinityGroups c) k)
      else slice_at (affinityGroups c) k)"
  by (auto simp: unindexRB_eq slice_at_def split: option.splits)

lemma slice_at_Some: "m k = Some ys \<Longrightarrow> slice_at m k = ys"
  by (simp add: slice_at_def)

lemma cache_eqI:
  "affinityGroups c' = affinityGroups c \<Longrightarrow> clustersByRB c' = clustersByRB c \<Longrightarrow> c' = (c :: schedulerCache)"
  by simp

lemma cache_eq_iff:
  "c' = (c :: schedulerCache) \<longleftrightarrow> affinityGroups c' = affinityGroups c \<and> clustersByRB c' = clustersByRB c"
  by auto

lemma filter_append_fresh: "i \<notin> set xs \<Longrightarrow> filter (\<lambda>j. j \<noteq> i) (xs @ [i]) = xs"
  by (induction xs) auto

lemma filter_fresh: "i \<notin> set xs \<Longrightarrow> filter (\<lambda>j. j \<noteq> i) xs = xs"
  by (induction xs) auto

lemma filter_last_back:
  assumes "xs \<noteq> []" "last xs = i" "i \<notin> set (butlast xs)"
  shows "filter (\<lambda>j. j \<noteq> i) xs @ [i] = xs"
proof -
  from assms(1,2) have xs: "xs = butlast xs @ [i]" by (metis append_butlast_last_id)
  have "filter (\<lambda>j. j \<noteq> i) (butlast xs @ [i]) = butlast xs"
    using assms(3) by (rule filter_append_fresh)
  with xs show ?thesis by metis
qed

lemma last_back_filter:
  assumes "filter (\<lambda>j. j \<noteq> i) xs @ [i] = xs"
  shows "xs \<noteq> [] \<and> last xs = i \<and> i \<notin> set (butlast xs)"
proof -
  from assms have ne: "xs \<noteq> []" by auto
  from assms have l: "last xs = i" by (metis last_snoc)
  from assms have "butlast xs = filter (\<lambda>j. j \<noteq> i) xs" by (metis butlast_snoc)
  then have "i \<notin> set (butlast xs)" by simp
  with ne l show ?thesis by simp
qed

lemma clustersByRB_indexRB:
  "clustersByRB (indexRB c rb) i =
     (if eligible rb \<and> i = rbID_of rb then Some (target_names rb) else clustersByRB c i)"
  by (auto simp: indexRB_eq eligible_iff split: option.splits)

lemma clustersByRB_unindexRB:
  "clustersByRB (unindexRB c rb) i =
     (if affinity_key rb \<noteq> None \<and> i = rbID_of rb then None else clustersByRB c i)"
  by (auto simp: unindexRB_eq split: option.splits)

lemma update_same_eq:
  "OnResourceBindingUpdate c (PtrResourceBinding (Some x)) (PtrResourceBinding (Some x)) = indexRB (unindexRB c x) x"
  by (simp add: OnResourceBindingUpdate_def)

lemma reindex_groups:
  assumes "affinity_key x = Some k" "Clusters (Spec x) \<noteq> []"
  shows "affinityGroups (indexRB (unindexRB c x) x) =
     (affinityGroups c)(k \<mapsto> filter (\<lambda>j. j \<noteq> rbID_of x) (slice_at (affinityGroups c) k) @ [rbID_of x])"
  using assms by (auto simp: indexRB_eq unindexRB_eq slice_at_def split: option.splits)

lemma reindex_clusters:
  assumes "affinity_key x = Some k" "Clusters (Spec x) \<noteq> []"
  shows "clustersByRB (indexRB (unindexRB c x) x) = (clustersByRB c)(rbID_of x \<mapsto> target_names x)"
  using assms by (auto simp: indexRB_eq unindexRB_eq split: option.splits)

lemma reindex_eligible_noop_iff:
  assumes k: "affinity_key x = Some k" and ne: "Clusters (Spec x) \<noteq> []"
  shows "indexRB (unindexRB c x) x = c \<longleftrightarrow>
     slice_at (affinityGroups c) k \<noteq> [] \<and> last (slice_at (affinityGroups c) k) = rbID_of x \<and>
     rbID_of x \<notin> set (butlast (slice_at (affinityGroups c) k)) \<and>
     clustersByRB c (rbID_of x) = Some (target_names x)"
proof -
  let ?i = "rbID_of x" and ?xs = "slice_at (affinityGroups c) k"
  have g: "affinityGroups (indexRB (unindexRB c x) x) = affinityGroups c \<longleftrightarrow>
      ?xs \<noteq> [] \<and> last ?xs = ?i \<and> ?i \<notin> set (butlast ?xs)"
  proof
    assume "affinityGroups (indexRB (unindexRB c x) x) = affinityGroups c"
    then have "affinityGroups c k = Some (filter (\<lambda>j. j \<noteq> ?i) ?xs @ [?i])"
      by (simp add: reindex_groups [OF k ne] fun_upd_idem_iff)
    then have "?xs = filter (\<lambda>j. j \<noteq> ?i) ?xs @ [?i]" by (rule slice_at_Some)
    then have "filter (\<lambda>j. j \<noteq> ?i) ?xs @ [?i] = ?xs" by (rule sym)
    then show "?xs \<noteq> [] \<and> last ?xs = ?i \<and> ?i \<notin> set (butlast ?xs)" by (rule last_back_filter)
  next
    assume a: "?xs \<noteq> [] \<and> last ?xs = ?i \<and> ?i \<notin> set (butlast ?xs)"
    then have "filter (\<lambda>j. j \<noteq> ?i) ?xs @ [?i] = ?xs" by (simp add: filter_last_back)
    moreover from a have "affinityGroups c k = Some ?xs" by (auto simp: slice_at_def split: option.splits)
    ultimately show "affinityGroups (indexRB (unindexRB c x) x) = affinityGroups c"
      by (simp add: reindex_groups [OF k ne] fun_upd_idem_iff)
  qed
  have r: "clustersByRB (indexRB (unindexRB c x) x) = clustersByRB c \<longleftrightarrow>
      clustersByRB c ?i = Some (target_names x)"
    by (simp add: reindex_clusters [OF k ne] fun_upd_idem_iff)
  have "indexRB (unindexRB c x) x = c \<longleftrightarrow>
      affinityGroups (indexRB (unindexRB c x) x) = affinityGroups c \<and>
      clustersByRB (indexRB (unindexRB c x) x) = clustersByRB c"
    by (auto intro: cache_eqI)
  with g r show ?thesis by blast
qed

lemma unindex_noop_iff:
  assumes k: "affinity_key x = Some k"
  shows "unindexRB c x = c \<longleftrightarrow>
     rbID_of x \<notin> set (slice_at (affinityGroups c) k) \<and> affinityGroups c k \<noteq> Some [] \<and>
     clustersByRB c (rbID_of x) = None"
proof (cases "affinityGroups c k")
  case None
  with k show ?thesis
    by (subst cache_eq_iff) (simp add: unindexRB_eq slice_at_def fun_upd_idem_iff)
next
  case (Some xs)
  let ?f = "filter (\<lambda>j. j \<noteq> rbID_of x) xs"
  have fid: "?f = xs \<longleftrightarrow> rbID_of x \<notin> set xs" by (auto simp: filter_id_conv)
  have sl: "slice_at (affinityGroups c) k = xs" using Some by (rule slice_at_Some)
  show ?thesis
  proof (cases "?f = []")
    case True
    with k Some have "affinityGroups (unindexRB c x) k = None" by (simp add: unindexRB_eq)
    with Some have "unindexRB c x \<noteq> c" by auto
    moreover from True fid have "\<not> (rbID_of x \<notin> set xs \<and> xs \<noteq> [])" by auto
    ultimately show ?thesis using Some sl by auto
  next
    case False
    with k Some have g: "affinityGroups (unindexRB c x) = (affinityGroups c)(k \<mapsto> ?f)"
      by (simp add: unindexRB_eq)
    have "(affinityGroups c)(k \<mapsto> ?f) = affinityGroups c \<longleftrightarrow> ?f = xs"
      using Some by (auto simp: fun_upd_idem_iff)
    with g fid have g': "affinityGroups (unindexRB c x) = affinityGroups c \<longleftrightarrow> rbID_of x \<notin> set xs"
      by simp
    from k have r: "clustersByRB (unindexRB c x) = clustersByRB c \<longleftrightarrow> clustersByRB c (rbID_of x) = None"
      by (simp add: unindexRB_eq fun_upd_idem_iff)
    from False have "rbID_of x \<notin> set xs \<longrightarrow> xs \<noteq> []" by auto
    with g' r Some sl show ?thesis by (subst cache_eq_iff) auto
  qed
qed

subsection \<open>The sample bindings\<close>

lemma job_a_facts:
  "Clusters (Spec job_a) \<noteq> []" "affinity_key job_a = Some (AntiKey ''ns1'' ''karmada.io/group'' ''alpha'')"
  "rbID_of job_a = ''ns1/job-a''" "target_names job_a = {''clusterX''}"
  by (simp_all add: job_a_def mk_binding_def affinity_key_def label_at_def rbID_of_def target_names_def)

lemma job_b_facts:
  "Clusters (Spec job_b) = []" "affinity_key job_b = Some (AntiKey ''ns1'' ''karmada.io/group'' ''alpha'')"
  "rbID_of job_b = ''ns1/job-b''" "target_names job_b = {}"
  by (simp_all add: job_b_def mk_binding_def affinity_key_def label_at_def rbID_of_def target_names_def)

lemma job_a_bare_facts:
  "affinity_key job_a_bare = None" "rbID_of job_a_bare = ''ns1/job-a''"
  by (simp_all add: job_a_bare_def mk_binding_def affinity_key_def rbID_of_def)

lemma job_a_moved_facts:
  "Clusters (Spec job_a_moved) \<noteq> []" "affinity_key job_a_moved = Some (AntiKey ''ns1'' ''karmada.io/group'' ''alpha'')"
  "rbID_of job_a_moved = ''ns1/job-a''" "target_names job_a_moved = {''clusterY''}"
  by (simp_all add: job_a_moved_def mk_binding_def affinity_key_def label_at_def rbID_of_def target_names_def)

lemma job_c_facts:
  "Clusters (Spec job_c) \<noteq> []" "affinity_key job_c = Some (AntiKey ''ns1'' ''karmada.io/group'' ''alpha'')"
  "rbID_of job_c = ''ns1/job-c''" "target_names job_c = {''clusterY''}"
  by (simp_all add: job_c_def mk_binding_def affinity_key_def label_at_def rbID_of_def target_names_def)

lemma job_a_deployment_facts:
  "Clusters (Spec job_a_deployment) \<noteq> []"
  "affinity_key job_a_deployment = Some (AntiKey ''ns1'' ''karmada.io/group'' ''alpha'')"
  "rbID_of job_a_deployment = ''ns1/job-a-deployment''" "target_names job_a_deployment = {''clusterX''}"
  by (simp_all add: job_a_deployment_def affinity_key_def label_at_def rbID_of_def target_names_def)

lemma cache_a_eq:
  "cache_a = \<lparr>affinityGroups = [AntiKey ''ns1'' ''karmada.io/group'' ''alpha'' \<mapsto> [''ns1/job-a'']],
              clustersByRB = [''ns1/job-a'' \<mapsto> {''clusterX''}]\<rparr>"
  by (simp add: cache_a_def OnResourceBindingAdd_def indexRB_eq job_a_facts NewCache_def slice_at_def)

lemma cache_ac_eq:
  "cache_ac = \<lparr>affinityGroups = [AntiKey ''ns1'' ''karmada.io/group'' ''alpha'' \<mapsto> [''ns1/job-a'', ''ns1/job-c'']],
              clustersByRB = [''ns1/job-a'' \<mapsto> {''clusterX''}, ''ns1/job-c'' \<mapsto> {''clusterY''}]\<rparr>"
  by (simp add: cache_ac_def cache_a_eq OnResourceBindingAdd_def indexRB_eq job_c_facts slice_at_def)

subsection \<open>No list of the index is empty\<close>

lemma no_empty_bucket_index:
  "\<forall>k. affinityGroups c k \<noteq> Some [] \<Longrightarrow> affinityGroups (indexRB c rb) k \<noteq> Some []"
  by (auto simp: indexRB_eq split: option.splits)

lemma no_empty_bucket_unindex:
  "\<forall>k. affinityGroups c k \<noteq> Some [] \<Longrightarrow> affinityGroups (unindexRB c rb) k \<noteq> Some []"
  by (auto simp: unindexRB_eq split: option.splits)

lemma no_empty_bucket_event:
  "\<forall>k. affinityGroups c k \<noteq> Some [] \<Longrightarrow> \<forall>k. affinityGroups (apply_event c e) k \<noteq> Some []"
  by (cases e)
    (auto simp: OnResourceBindingAdd_def OnResourceBindingUpdate_def OnResourceBindingDelete_def
      no_empty_bucket_index no_empty_bucket_unindex split: option.splits)

lemma no_empty_bucket_run:
  "\<forall>k. affinityGroups c k \<noteq> Some [] \<Longrightarrow> \<forall>k. affinityGroups (run_events c es) k \<noteq> Some []"
proof (induction es arbitrary: c)
  case Nil
  then show ?case by simp
next
  case (Cons e es)
  from Cons.prems have "\<forall>k. affinityGroups (apply_event c e) k \<noteq> Some []"
    by (rule no_empty_bucket_event)
  then show ?case using Cons.IH by simp
qed

lemma no_empty_bucket_reachable: "affinityGroups (run_events NewCache es) k \<noteq> Some []"
  using no_empty_bucket_run [of NewCache es] by (simp add: NewCache_def)

subsection \<open>The index mirrors the informer's store\<close>

lemma mirrors_empty: "mirrors Map.empty NewCache"
  by (simp add: mirrors_def NewCache_def slice_at_def)

lemma mirrors_index:
  assumes m: "mirrors st c" and fresh: "st (rbID_of rb) = None"
  shows "mirrors (st(rbID_of rb \<mapsto> rb)) (indexRB c rb)"
proof -
  from m fresh have notin: "rbID_of rb \<notin> set (slice_at (affinityGroups c) k)" for k
    by (auto simp: mirrors_def)
  show ?thesis
    unfolding mirrors_def
  proof (intro conjI allI)
    fix i b
    show "(st(rbID_of rb \<mapsto> rb)) i = Some b \<longrightarrow> rbID_of b = i"
      using m by (auto simp: mirrors_def)
  next
    fix k
    show "distinct (slice_at (affinityGroups (indexRB c rb)) k)"
      using m notin by (auto simp: mirrors_def slice_at_indexRB)
  next
    fix k
    show "affinityGroups (indexRB c rb) k \<noteq> Some []"
      using m by (simp add: mirrors_def no_empty_bucket_index)
  next
    fix k i
    show "i \<in> set (slice_at (affinityGroups (indexRB c rb)) k) \<longleftrightarrow>
        (\<exists>b. (st(rbID_of rb \<mapsto> rb)) i = Some b \<and> eligible b \<and> affinity_key b = Some k)"
      using m fresh by (auto simp: mirrors_def slice_at_indexRB)
  next
    fix i
    show "clustersByRB (indexRB c rb) i =
        (case (st(rbID_of rb \<mapsto> rb)) i of
           None \<Rightarrow> None
         | Some b \<Rightarrow> if eligible b then Some (target_names b) else None)"
      using m fresh by (auto simp: mirrors_def clustersByRB_indexRB)
  qed
qed

lemma mirrors_unindex:
  assumes m: "mirrors st c" and held: "st (rbID_of rb) = Some rb"
  shows "mirrors (st(rbID_of rb := None)) (unindexRB c rb)"
  unfolding mirrors_def
proof (intro conjI allI)
  fix i b
  show "(st(rbID_of rb := None)) i = Some b \<longrightarrow> rbID_of b = i"
    using m by (auto simp: mirrors_def)
next
  fix k
  show "distinct (slice_at (affinityGroups (unindexRB c rb)) k)"
    using m by (auto simp: mirrors_def slice_at_unindexRB)
next
  fix k
  show "affinityGroups (unindexRB c rb) k \<noteq> Some []"
    using m by (simp add: mirrors_def no_empty_bucket_unindex)
next
  fix k i
  from m have mem: "j \<in> set (slice_at (affinityGroups c) k') \<longleftrightarrow>
        (\<exists>b. st j = Some b \<and> eligible b \<and> affinity_key b = Some k')" for j k'
    by (simp add: mirrors_def)
  show "i \<in> set (slice_at (affinityGroups (unindexRB c rb)) k) \<longleftrightarrow>
        (\<exists>b. (st(rbID_of rb := None)) i = Some b \<and> eligible b \<and> affinity_key b = Some k)"
    using held by (auto simp: slice_at_unindexRB mem)
next
  fix i
  from m have cl: "clustersByRB c j =
        (case st j of None \<Rightarrow> None | Some b \<Rightarrow> if eligible b then Some (target_names b) else None)" for j
    by (simp add: mirrors_def)
  show "clustersByRB (unindexRB c rb) i =
        (case (st(rbID_of rb := None)) i of
           None \<Rightarrow> None
         | Some b \<Rightarrow> if eligible b then Some (target_names b) else None)"
    using held by (auto simp: clustersByRB_unindexRB cl eligible_iff)
qed

lemma mirrors_event:
  assumes "mirrors st c" and "deliver st e = Some st'"
  shows "mirrors st' (apply_event c e)"
proof (cases e)
  case (Add ob)
  with assms show ?thesis
    by (auto simp: OnResourceBindingAdd_def mirrors_index split: option.splits if_splits)
next
  case (Update oldObj newObj)
  show ?thesis
  proof (cases "getRBFromObj oldObj")
    case None
    with assms Update show ?thesis by (simp add: OnResourceBindingUpdate_def)
  next
    case old: (Some oldRB)
    show ?thesis
    proof (cases "getRBFromObj newObj")
      case None
      with assms Update old show ?thesis by (simp add: OnResourceBindingUpdate_def)
    next
      case new: (Some newRB)
      from assms Update old new have held: "st (rbID_of oldRB) = Some oldRB"
        and same: "rbID_of newRB = rbID_of oldRB" and st': "st' = st(rbID_of newRB \<mapsto> newRB)"
        by (auto split: if_splits)
      from mirrors_unindex [OF assms(1) held]
      have "mirrors (st(rbID_of oldRB := None)) (unindexRB c oldRB)" .
      from mirrors_index [OF this, of newRB] same
      have "mirrors ((st(rbID_of oldRB := None))(rbID_of newRB \<mapsto> newRB)) (indexRB (unindexRB c oldRB) newRB)"
        by simp
      with same st' Update old new show ?thesis
        by (simp add: OnResourceBindingUpdate_def)
    qed
  qed
next
  case (Delete ob)
  with assms show ?thesis
    by (auto simp: OnResourceBindingDelete_def mirrors_unindex split: option.splits if_splits)
qed

lemma mirrors_run:
  "mirrors st c \<Longrightarrow> deliver_all st es = Some st' \<Longrightarrow> mirrors st' (run_events c es)"
proof (induction es arbitrary: st c)
  case Nil
  then show ?case by simp
next
  case (Cons e es)
  from Cons.prems(2) obtain st1 where d: "deliver st e = Some st1" and rest: "deliver_all st1 es = Some st'"
    by (auto split: option.splits)
  from mirrors_event [OF Cons.prems(1) d] have "mirrors st1 (apply_event c e)" .
  from Cons.IH [OF this rest] show ?case by simp
qed

section \<open>Frames on the heap\<close>

lemma writes_only_refl: "writes_only A h h"
  by (simp add: writes_only_def same_obj_def)

lemma writes_only_trans:
  assumes "writes_only A h0 h" "writes_only B h h1" "\<And>a. a \<in> B \<Longrightarrow> a \<in> A \<or> nextAddr h0 \<le> a"
  shows "writes_only A h0 h1"
  unfolding writes_only_def
proof (intro conjI allI impI)
  from assms(1,2) show "nextAddr h0 \<le> nextAddr h1" by (simp add: writes_only_def)
next
  fix a assume a: "a < nextAddr h0 \<and> a \<notin> A"
  with assms(1) have 1: "same_obj h0 h a" and lt: "a < nextAddr h" by (auto simp: writes_only_def)
  from a assms(3) have "a \<notin> B" by force
  with assms(2) lt have "same_obj h h1 a" by (simp add: writes_only_def)
  with 1 show "same_obj h0 h1 a" by (simp add: same_obj_def)
qed

lemma writes_only_mono: "writes_only A h h' \<Longrightarrow> A \<subseteq> B \<Longrightarrow> writes_only B h h'"
  by (auto simp: writes_only_def)

lemma step_ok_refl: "step_ok c h h"
  by (simp add: step_ok_def writes_only_refl)

lemma step_ok_trans:
  assumes "step_ok c h h'" "step_ok c h' h''"
  shows "step_ok c h h''"
proof -
  from assms have n: "nextAddr h \<le> nextAddr h'" "nextAddr h' \<le> nextAddr h''"
    by (simp_all add: step_ok_def writes_only_def)
  have "writes_only (owned h c) h h''"
  proof (rule writes_only_trans)
    show "writes_only (owned h c) h h'" using assms(1) by (simp add: step_ok_def)
    show "writes_only (owned h' c) h' h''" using assms(2) by (simp add: step_ok_def)
    show "a \<in> owned h c \<or> nextAddr h \<le> a" if "a \<in> owned h' c" for a
      using that assms(1) by (auto simp: step_ok_def)
  qed
  moreover have "owned h'' c \<subseteq> owned h c \<union> {nextAddr h..<nextAddr h''}"
    using assms n by (fastforce simp: step_ok_def)
  ultimately show ?thesis by (simp add: step_ok_def)
qed

lemma step_ok_cache_ok: "step_ok c h h' \<Longrightarrow> cache_ok h c \<Longrightarrow> cache_ok h' c"
  by (fastforce simp: step_ok_def cache_ok_def writes_only_def)

subsection \<open>append\<close>

lemma append_h_tables:
  assumes "append_h grow h s x = (s', h')"
  shows "groupMapObjs h' = groupMapObjs h" "rbMapObjs h' = rbMapObjs h" "setObjs h' = setObjs h"
    "clusterObjs h' = clusterObjs h" "nextAddr h \<le> nextAddr h'"
  using assms by (auto simp: append_h_def Let_def split: if_splits)

lemma append_h_base:
  assumes "append_h grow h s x = (s', h')"
  shows "base s' = base s \<and> len s < cap s \<or> base s' = nextAddr h \<and> nextAddr h < nextAddr h'"
  using assms by (auto simp: append_h_def Let_def split: if_splits)

lemma append_h_writes:
  assumes "append_h grow h s x = (s', h')" "len s < cap s \<longrightarrow> base s \<in> A"
  shows "writes_only A h h'"
  using assms by (auto simp: append_h_def Let_def writes_only_def same_obj_def split: if_splits)

subsection \<open>The filtering loop\<close>

lemma filter_ids_h_frame:
  assumes "filter_ids_h grow rbID sl i filtered h = (f', h')"
    and "writes_only A h0 h"
    and "base filtered \<in> A \<or> nextAddr h0 \<le> base filtered \<and> base filtered < nextAddr h"
  shows "writes_only A h0 h' \<and>
         (base f' \<in> A \<or> nextAddr h0 \<le> base f' \<and> base f' < nextAddr h') \<and>
         groupMapObjs h' = groupMapObjs h \<and> rbMapObjs h' = rbMapObjs h"
  using assms
proof (induction grow rbID sl i filtered h rule: filter_ids_h.induct)
  case (1 grow rbID sl i filtered h)
  show ?case
  proof (cases "i < len sl")
    case False
    with "1.prems" show ?thesis by simp
  next
    case True
    show ?thesis
    proof (cases "arrayObjs h (base sl) ! i \<noteq> rbID")
      case False
      with True "1.prems" "1.IH"(2) show ?thesis by simp
    next
      case ne: True
      obtain f1 h1 where ap: "append_h grow h filtered (arrayObjs h (base sl) ! i) = (f1, h1)"
        by (cases "append_h grow h filtered (arrayObjs h (base sl) ! i)")
      from "1.prems"(1) True ne ap have run: "filter_ids_h grow rbID sl (Suc i) f1 h1 = (f', h')"
        by simp
      have w1: "writes_only {base filtered} h h1"
        by (rule append_h_writes [OF ap]) simp
      have w: "writes_only A h0 h1"
        by (rule writes_only_trans [OF "1.prems"(2) w1]) (use "1.prems"(3) in auto)
      from "1.prems"(2) have n0: "nextAddr h0 \<le> nextAddr h" by (simp add: writes_only_def)
      from append_h_tables(5) [OF ap] have n1: "nextAddr h \<le> nextAddr h1" .
      from append_h_base [OF ap] "1.prems"(3) n0 n1
      have b: "base f1 \<in> A \<or> nextAddr h0 \<le> base f1 \<and> base f1 < nextAddr h1" by auto
      from "1.IH"(1) [OF True ne] ap run w b
      have "writes_only A h0 h' \<and>
         (base f' \<in> A \<or> nextAddr h0 \<le> base f' \<and> base f' < nextAddr h') \<and>
         groupMapObjs h' = groupMapObjs h1 \<and> rbMapObjs h' = rbMapObjs h1" by simp
      with append_h_tables(1,2) [OF ap] show ?thesis by simp
    qed
  qed
qed

lemma set_update_subset: "set (AList.update k v al) \<subseteq> insert (k, v) (set al)"
  by (induction al) auto

lemma set_delete_subset: "set (AList.delete k al) \<subseteq> set al"
  by (auto simp: AList.delete_eq)

lemma slice_of_cases: "slice_of m k = nil_slice \<or> (k, slice_of m k) \<in> set m"
  by (auto simp: slice_of_def dest: map_of_SomeD split: option.splits)

lemma insert_targets_h_tables:
  "groupMapObjs (insert_targets_h ts a h) = groupMapObjs h"
  "rbMapObjs (insert_targets_h ts a h) = rbMapObjs h"
  "arrayObjs (insert_targets_h ts a h) = arrayObjs h"
  "clusterObjs (insert_targets_h ts a h) = clusterObjs h"
  "nextAddr (insert_targets_h ts a h) = nextAddr h"
  "b \<noteq> a \<Longrightarrow> setObjs (insert_targets_h ts a h) b = setObjs h b"
  by (induction ts arbitrary: h; simp add: insert_h_def)+

lemma insert_targets_h_set:
  "setObjs (insert_targets_h ts a h) a = insert_targets ts (setObjs h a)"
  by (induction ts arbitrary: h) (simp_all add: insert_h_def)

lemma insert_targets_h_writes: "writes_only {a} h (insert_targets_h ts a h)"
  by (simp add: writes_only_def same_obj_def insert_targets_h_tables)

lemma indexRB_h_eq:
  "indexRB_h grow c h rb =
     (case affinity_key rb of
        None \<Rightarrow> h
      | Some key \<Rightarrow>
          if Clusters (Spec rb) = [] then h
          else
            let h2 = insert_targets_h (Clusters (Spec rb)) (nextAddr h) (snd (new_set_h h));
                ap = append_h grow h2 (slice_of (groupMapObjs h (affinityGroupsRef c)) key) (rbID_of rb)
            in store_rb_h (store_group_h (snd ap) (affinityGroupsRef c) key (fst ap))
                 (clustersByRBRef c) (rbID_of rb) (nextAddr h))"
  by (simp add: indexRB_h_def affinity_key_def MakeAntiKey_def Let_def split_def new_set_h_def
      insert_targets_h_tables split: option.splits)

lemma unindexRB_h_eq:
  "unindexRB_h grow c h rb =
     (case affinity_key rb of
        None \<Rightarrow> h
      | Some key \<Rightarrow>
          delete_rb_h
            (case map_of (groupMapObjs h (affinityGroupsRef c)) key of
               None \<Rightarrow> h
             | Some sl \<Rightarrow>
                 let r = filter_ids_h grow (rbID_of rb) sl 0 (sl\<lparr>len := 0\<rparr>) h
                 in if len (fst r) = 0 then delete_group_h (snd r) (affinityGroupsRef c) key
                    else store_group_h (snd r) (affinityGroupsRef c) key (fst r))
            (clustersByRBRef c) (rbID_of rb))"
  by (simp add: unindexRB_h_def affinity_key_def MakeAntiKey_def Let_def split_def
      split: option.splits)

lemma indexRB_h_step:
  assumes ok: "cache_ok h c"
  shows "step_ok c h (indexRB_h grow c h rb)"
proof (cases "affinity_key rb")
  case None
  then show ?thesis by (simp add: indexRB_h_eq step_ok_refl)
next
  case (Some key)
  show ?thesis
  proof (cases "Clusters (Spec rb) = []")
    case True
    with Some show ?thesis by (simp add: indexRB_h_eq step_ok_refl)
  next
    case False
    let ?g = "affinityGroupsRef c" and ?r = "clustersByRBRef c"
    define a0 where "a0 = nextAddr h"
    define h1 where "h1 = snd (new_set_h h)"
    define h2 where "h2 = insert_targets_h (Clusters (Spec rb)) a0 h1"
    define s where "s = slice_of (groupMapObjs h ?g) key"
    obtain appended h3 where ap: "append_h grow h2 s (rbID_of rb) = (appended, h3)"
      by (cases "append_h grow h2 s (rbID_of rb)")
    define h4 where "h4 = store_group_h h3 ?g key appended"
    define h5 where "h5 = store_rb_h h4 ?r (rbID_of rb) a0"
    have res: "indexRB_h grow c h rb = h5"
      using Some False ap
      by (simp add: indexRB_h_eq Let_def h5_def h4_def h2_def h1_def a0_def s_def)
    from ok have own: "owned h c \<subseteq> {..<nextAddr h}" by (simp add: cache_ok_def)
    have s_own: "len s < cap s \<longrightarrow> base s \<in> owned h c"
      using slice_of_cases [of "groupMapObjs h ?g" key]
      by (force simp: s_def nil_slice_def owned_def cache_bases_def)
    have w1: "writes_only (owned h c) h h1"
      by (simp add: h1_def new_set_h_def writes_only_def same_obj_def)
    have n1: "nextAddr h1 = Suc a0" by (simp add: h1_def new_set_h_def a0_def)
    have w2: "writes_only (owned h c) h h2"
      by (rule writes_only_trans [OF w1 insert_targets_h_writes [of a0 h1 "Clusters (Spec rb)", folded h2_def]])
         (simp add: a0_def)
    have n2: "nextAddr h2 = Suc a0" by (simp add: h2_def insert_targets_h_tables n1)
    have w3: "writes_only (owned h c) h h3"
      by (rule writes_only_trans [OF w2 append_h_writes [OF ap, of "{base s} \<inter> owned h c"]])
         (use s_own in auto)
    from append_h_tables [OF ap]
    have t3: "groupMapObjs h3 = groupMapObjs h2" "rbMapObjs h3 = rbMapObjs h2" "nextAddr h2 \<le> nextAddr h3"
      by simp_all
    have w4: "writes_only (owned h c) h h4"
      by (rule writes_only_trans [OF w3, of "{?g}"])
         (simp_all add: h4_def store_group_h_def writes_only_def same_obj_def owned_def)
    have w5: "writes_only (owned h c) h h5"
      by (rule writes_only_trans [OF w4, of "{?r}"])
         (simp_all add: h5_def store_rb_h_def writes_only_def same_obj_def owned_def)
    have g5: "groupMapObjs h5 ?g = AList.update key appended (groupMapObjs h ?g)"
      by (simp add: h5_def store_rb_h_def h4_def store_group_h_def t3 h2_def insert_targets_h_tables
          h1_def new_set_h_def)
    have n5: "nextAddr h5 = nextAddr h3" by (simp add: h5_def store_rb_h_def h4_def store_group_h_def)
    have b: "base appended \<in> owned h c \<or> nextAddr h \<le> base appended \<and> base appended < nextAddr h5"
      using append_h_base [OF ap] s_own n2 n5 by (auto simp: a0_def)
    have "cache_bases h5 c \<subseteq> cache_bases h c \<union> {base appended}"
      using set_update_subset [of key appended "groupMapObjs h ?g"]
      by (auto simp: cache_bases_def g5)
    with b have "owned h5 c \<subseteq> owned h c \<union> {nextAddr h..<nextAddr h5}"
      by (auto simp: owned_def)
    with w5 res show ?thesis by (simp add: step_ok_def)
  qed
qed

lemma unindexRB_h_step:
  assumes ok: "cache_ok h c"
  shows "step_ok c h (unindexRB_h grow c h rb)"
proof (cases "affinity_key rb")
  case None
  then show ?thesis by (simp add: unindexRB_h_eq step_ok_refl)
next
  case (Some key)
  let ?g = "affinityGroupsRef c" and ?r = "clustersByRBRef c"
  define h1 where "h1 =
     (case map_of (groupMapObjs h ?g) key of
        None \<Rightarrow> h
      | Some sl \<Rightarrow>
          let r = filter_ids_h grow (rbID_of rb) sl 0 (sl\<lparr>len := 0\<rparr>) h
          in if len (fst r) = 0 then delete_group_h (snd r) ?g key
             else store_group_h (snd r) ?g key (fst r))"
  have res: "unindexRB_h grow c h rb = delete_rb_h h1 ?r (rbID_of rb)"
    using Some by (simp add: unindexRB_h_eq h1_def)
  have 1: "step_ok c h h1"
  proof (cases "map_of (groupMapObjs h ?g) key")
    case None
    then show ?thesis by (simp add: h1_def step_ok_refl)
  next
    case (Some sl)
    then have "(key, sl) \<in> set (groupMapObjs h ?g)" by (rule map_of_SomeD)
    then have sl_own: "base sl \<in> owned h c" by (force simp: owned_def cache_bases_def)
    obtain f' h' where run: "filter_ids_h grow (rbID_of rb) sl 0 (sl\<lparr>len := 0\<rparr>) h = (f', h')"
      by (cases "filter_ids_h grow (rbID_of rb) sl 0 (sl\<lparr>len := 0\<rparr>) h")
    from filter_ids_h_frame [OF run writes_only_refl [of "owned h c" h]] sl_own
    have w: "writes_only (owned h c) h h'"
      and b: "base f' \<in> owned h c \<or> nextAddr h \<le> base f' \<and> base f' < nextAddr h'"
      and g: "groupMapObjs h' = groupMapObjs h" by simp_all
    show ?thesis
    proof (cases "len f' = 0")
      case True
      with Some run have h1: "h1 = delete_group_h h' ?g key" by (simp add: h1_def)
      have "writes_only (owned h c) h h1"
        by (rule writes_only_trans [OF w, of "{?g}"])
           (simp_all add: h1 delete_group_h_def writes_only_def same_obj_def owned_def)
      moreover have "cache_bases h1 c \<subseteq> cache_bases h c"
        using set_delete_subset [of key "groupMapObjs h ?g"]
        by (auto simp: cache_bases_def h1 delete_group_h_def g)
      ultimately show ?thesis by (auto simp: step_ok_def owned_def)
    next
      case False
      with Some run have h1: "h1 = store_group_h h' ?g key f'" by (simp add: h1_def)
      have "writes_only (owned h c) h h1"
        by (rule writes_only_trans [OF w, of "{?g}"])
           (simp_all add: h1 store_group_h_def writes_only_def same_obj_def owned_def)
      moreover have "cache_bases h1 c \<subseteq> cache_bases h c \<union> {base f'}"
        using set_update_subset [of key f' "groupMapObjs h ?g"]
        by (auto simp: cache_bases_def h1 store_group_h_def g)
      moreover have "nextAddr h1 = nextAddr h'" by (simp add: h1 store_group_h_def)
      ultimately show ?thesis using b by (auto simp: step_ok_def owned_def)
    qed
  qed
  have 2: "step_ok c h1 (delete_rb_h h1 ?r (rbID_of rb))"
    by (simp add: step_ok_def delete_rb_h_def writes_only_def same_obj_def owned_def cache_bases_def)
  from step_ok_trans [OF 1 2] res show ?thesis by simp
qed

lemma apply_event_h_step: "cache_ok h c \<Longrightarrow> step_ok c h (apply_event_h grow c h e)"
proof (cases e)
  case (Add ob)
  assume "cache_ok h c"
  with Add show ?thesis
    by (simp add: OnResourceBindingAdd_h_def indexRB_h_step step_ok_refl split: option.splits)
next
  case (Update oldObj newObj)
  assume ok: "cache_ok h c"
  show ?thesis
  proof (cases "getRBFromObj oldObj")
    case None
    with Update show ?thesis by (simp add: OnResourceBindingUpdate_h_def step_ok_refl)
  next
    case old: (Some oldRB)
    show ?thesis
    proof (cases "getRBFromObj newObj")
      case None
      with Update old show ?thesis by (simp add: OnResourceBindingUpdate_h_def step_ok_refl)
    next
      case (Some newRB)
      from unindexRB_h_step [OF ok] have 1: "step_ok c h (unindexRB_h grow c h oldRB)" .
      from step_ok_cache_ok [OF 1 ok] have "cache_ok (unindexRB_h grow c h oldRB) c" .
      from indexRB_h_step [OF this]
      have "step_ok c (unindexRB_h grow c h oldRB) (indexRB_h grow c (unindexRB_h grow c h oldRB) newRB)" .
      from step_ok_trans [OF 1 this] Update old Some show ?thesis
        by (simp add: OnResourceBindingUpdate_h_def)
    qed
  qed
next
  case (Delete ob)
  assume "cache_ok h c"
  with Delete show ?thesis
    by (simp add: OnResourceBindingDelete_h_def unindexRB_h_step step_ok_refl split: option.splits)
qed

lemma run_events_h_step: "cache_ok h c \<Longrightarrow> step_ok c h (run_events_h grow c h es)"
proof (induction es arbitrary: h)
  case Nil
  then show ?case by (simp add: step_ok_refl)
next
  case (Cons e es)
  from apply_event_h_step [OF Cons.prems] have 1: "step_ok c h (apply_event_h grow c h e)" .
  from step_ok_cache_ok [OF 1 Cons.prems] have "cache_ok (apply_event_h grow c h e) c" .
  from Cons.IH [OF this] have "step_ok c (apply_event_h grow c h e) (run_events_h grow c (apply_event_h grow c h e) es)" .
  from step_ok_trans [OF 1 this] show ?case by simp
qed

lemma NewCache_h_ok: "NewCache_h h = (c, h') \<Longrightarrow> cache_ok h' c"
  by (auto simp: NewCache_h_def cache_ok_def owned_def cache_bases_def)

lemma same_obj_view:
  assumes "\<And>a. a \<in> snap_addrs h s \<Longrightarrow> same_obj h h' a"
  shows "snapshot_view h' s = snapshot_view h s" and "snap_addrs h' s = snap_addrs h s"
proof -
  have cl: "map (clusterObjs h') (clustersPtrs s) = map (clusterObjs h) (clustersPtrs s)"
    using assms by (auto simp: snap_addrs_def same_obj_def)
  have g: "groupMapObjs h' m = groupMapObjs h m \<and>
           (\<forall>k sl. map_of (groupMapObjs h m) k = Some sl \<longrightarrow> read_slice h' sl = read_slice h sl)"
    if "affinityGroupsSnap s = Some m" for m
  proof (intro conjI allI impI)
    from that have "m \<in> snap_addrs h s" by (simp add: snap_addrs_def)
    with assms show "groupMapObjs h' m = groupMapObjs h m" by (simp add: same_obj_def)
  next
    fix k sl assume "map_of (groupMapObjs h m) k = Some sl"
    then have "(k, sl) \<in> set (groupMapObjs h m)" by (rule map_of_SomeD)
    with that have "base sl \<in> snap_addrs h s" by (force simp: snap_addrs_def)
    with assms show "read_slice h' sl = read_slice h sl" by (simp add: same_obj_def read_slice_def)
  qed
  have r: "rbMapObjs h' m = rbMapObjs h m \<and>
           (\<forall>i st. map_of (rbMapObjs h m) i = Some st \<longrightarrow> setObjs h' st = setObjs h st)"
    if "clustersByRBSnap s = Some m" for m
  proof (intro conjI allI impI)
    from that have "m \<in> snap_addrs h s" by (simp add: snap_addrs_def)
    with assms show "rbMapObjs h' m = rbMapObjs h m" by (simp add: same_obj_def)
  next
    fix i st assume "map_of (rbMapObjs h m) i = Some st"
    then have "(i, st) \<in> set (rbMapObjs h m)" by (rule map_of_SomeD)
    with that have "st \<in> snap_addrs h s" by (force simp: snap_addrs_def)
    with assms show "setObjs h' st = setObjs h st" by (simp add: same_obj_def)
  qed
  have ga: "snapAffinityGroups (snapshot_view h' s) = snapAffinityGroups (snapshot_view h s)"
  proof (cases "affinityGroupsSnap s")
    case None
    then show ?thesis by (simp add: snapshot_view_def)
  next
    case (Some m)
    have "map_option (read_slice h') (map_of (groupMapObjs h' m) k) =
          map_option (read_slice h) (map_of (groupMapObjs h m) k)" for k
      using g [OF Some] by (cases "map_of (groupMapObjs h m) k") simp_all
    with Some show ?thesis by (simp add: snapshot_view_def)
  qed
  have ra: "snapClustersByRB (snapshot_view h' s) = snapClustersByRB (snapshot_view h s)"
  proof (cases "clustersByRBSnap s")
    case None
    then show ?thesis by (simp add: snapshot_view_def)
  next
    case (Some m)
    have "map_option (setObjs h') (map_of (rbMapObjs h' m) i) =
          map_option (setObjs h) (map_of (rbMapObjs h m) i)" for i
      using r [OF Some] by (cases "map_of (rbMapObjs h m) i") simp_all
    with Some show ?thesis by (simp add: snapshot_view_def)
  qed
  from cl ga ra show "snapshot_view h' s = snapshot_view h s"
    by (simp add: snapshot_view_def)
  show "snap_addrs h' s = snap_addrs h s"
    using g r by (auto simp: snap_addrs_def split: option.splits)
qed

lemma separate_step:
  assumes sep: "separate h s c" and st: "step_ok c h h'"
  shows "separate h' s c" and "snapshot_view h' s = snapshot_view h s"
proof -
  have same: "same_obj h h' a" if "a \<in> snap_addrs h s" for a
    using that sep st by (auto simp: separate_def step_ok_def writes_only_def)
  from same_obj_view [OF same] have v: "snapshot_view h' s = snapshot_view h s"
    and ad: "snap_addrs h' s = snap_addrs h s" by simp_all
  from v show "snapshot_view h' s = snapshot_view h s" .
  from st have "nextAddr h \<le> nextAddr h'" by (simp add: step_ok_def writes_only_def)
  with sep st ad show "separate h' s c"
    by (fastforce simp: separate_def step_ok_def)
qed

subsection \<open>The accessors read the view\<close>

lemma read_nil_slice: "read_slice h nil_slice = []"
  by (simp add: read_slice_def nil_slice_def)

lemma GetPeerResourceBindings_view:
  "read_slice h (GetPeerResourceBindings_h h s ns key val) =
     GetPeerResourceBindings (snapshot_view h s) ns key val"
  by (simp add: GetPeerResourceBindings_h_def GetPeerResourceBindings_def snapshot_view_def
      slice_of_def slice_at_def read_nil_slice split: option.splits)

lemma GetClustersForResourceBinding_view:
  "read_set h (GetClustersForResourceBinding_h h s rbID) =
     GetClustersForResourceBinding (snapshot_view h s) rbID"
  by (simp add: GetClustersForResourceBinding_h_def GetClustersForResourceBinding_def snapshot_view_def
      read_set_def set_at_def split: option.splits)

lemma NumOfClusters_view: "NumOfClusters_h s = NumOfClusters (snapshot_view h s)"
  by (simp add: NumOfClusters_h_def NumOfClusters_def snapshot_view_def)

lemma GetClusters_view: "map (clusterObjs h) (GetClusters_h s) = GetClusters (snapshot_view h s)"
  by (simp add: GetClusters_h_def GetClusters_def snapshot_view_def)

lemma GetReadyClusters_view:
  "map (clusterObjs h) (GetReadyClusters_h h s) = GetReadyClusters (snapshot_view h s)"
  by (simp add: GetReadyClusters_h_def GetReadyClusters_def snapshot_view_def filter_map comp_def)

lemma GetReadyClusterNames_view:
  "GetReadyClusterNames_h h s = GetReadyClusterNames (snapshot_view h s)"
  by (auto simp: GetReadyClusterNames_h_def GetReadyClusterNames_def snapshot_view_def)

lemma find_map: "find P (map f xs) = map_option f (find (\<lambda>x. P (f x)) xs)"
  by (induction xs) auto

lemma GetCluster_view:
  "map_option (clusterObjs h) (GetCluster_h h s clusterName) = GetCluster (snapshot_view h s) clusterName"
  by (simp add: GetCluster_h_def GetCluster_def snapshot_view_def find_map)

subsection \<open>A snapshot is made of new objects\<close>

lemma deep_copy_clusters_h_fresh:
  assumes "deep_copy_clusters_h cls out h = (ptrs, h')"
  shows "writes_only {} h h' \<and> set ptrs \<subseteq> set out \<union> {nextAddr h..<nextAddr h'} \<and>
         groupMapObjs h' = groupMapObjs h \<and> rbMapObjs h' = rbMapObjs h"
  using assms
proof (induction cls arbitrary: out h)
  case Nil
  then show ?case by (simp add: writes_only_refl)
next
  case (Cons cl cls)
  let ?h1 = "h\<lparr>clusterObjs := (clusterObjs h)(nextAddr h := clusterObjs h cl), nextAddr := Suc (nextAddr h)\<rparr>"
  from Cons.prems have "deep_copy_clusters_h cls (out @ [nextAddr h]) ?h1 = (ptrs, h')" by simp
  from Cons.IH [OF this]
  have w: "writes_only {} ?h1 h'" and p: "set ptrs \<subseteq> set (out @ [nextAddr h]) \<union> {nextAddr ?h1..<nextAddr h'}"
    and t: "groupMapObjs h' = groupMapObjs ?h1" "rbMapObjs h' = rbMapObjs ?h1"
    by simp_all
  have w0: "writes_only {} h ?h1" by (simp add: writes_only_def same_obj_def)
  from writes_only_trans [OF w0 w] have "writes_only {} h h'" by simp
  moreover from w have "Suc (nextAddr h) \<le> nextAddr h'" by (simp add: writes_only_def)
  with p have "set ptrs \<subseteq> set out \<union> {nextAddr h..<nextAddr h'}" by auto
  ultimately show ?case using t by simp
qed

lemma copy_groups_h_fresh:
  assumes "out < nextAddr h"
  shows "writes_only {out} h (copy_groups_h entries out h) \<and>
         (\<lambda>e. base (snd e)) ` set (groupMapObjs (copy_groups_h entries out h) out)
           \<subseteq> (\<lambda>e. base (snd e)) ` set (groupMapObjs h out) \<union> {nextAddr h..<nextAddr (copy_groups_h entries out h)} \<and>
         rbMapObjs (copy_groups_h entries out h) = rbMapObjs h"
  using assms
proof (induction entries arbitrary: h)
  case Nil
  then show ?case by (simp add: writes_only_refl)
next
  case (Cons e entries)
  obtain k v where e: "e = (k, v)" by (cases e)
  define a where "a = nextAddr h"
  define h1 where "h1 = snd (copy_slice_h h v)"
  define vv where "vv = fst (copy_slice_h h v)"
  define h2 where "h2 = store_group_h h1 out k vv"
  have run: "copy_groups_h (e # entries) out h = copy_groups_h entries out h2"
    by (simp add: e h2_def h1_def vv_def split_def Let_def)
  have vv: "base vv = a" by (simp add: vv_def copy_slice_h_def Let_def a_def)
  have n2: "nextAddr h2 = Suc a"
    by (simp add: h2_def store_group_h_def h1_def copy_slice_h_def Let_def a_def)
  have w02: "writes_only {out} h h2"
    by (simp add: h2_def store_group_h_def h1_def copy_slice_h_def Let_def writes_only_def same_obj_def)
  have g2: "groupMapObjs h2 out = AList.update k vv (groupMapObjs h out)"
    by (simp add: h2_def store_group_h_def h1_def copy_slice_h_def Let_def)
  have r2: "rbMapObjs h2 = rbMapObjs h"
    by (simp add: h2_def store_group_h_def h1_def copy_slice_h_def Let_def)
  from Cons.prems n2 have "out < nextAddr h2" by (simp add: a_def)
  from Cons.IH [OF this]
  have w: "writes_only {out} h2 (copy_groups_h entries out h2)"
    and b: "(\<lambda>e. base (snd e)) ` set (groupMapObjs (copy_groups_h entries out h2) out)
           \<subseteq> (\<lambda>e. base (snd e)) ` set (groupMapObjs h2 out) \<union> {nextAddr h2..<nextAddr (copy_groups_h entries out h2)}"
    and r: "rbMapObjs (copy_groups_h entries out h2) = rbMapObjs h2" by simp_all
  from writes_only_trans [OF w02 w] have 1: "writes_only {out} h (copy_groups_h entries out h2)" by simp
  from w have le: "Suc a \<le> nextAddr (copy_groups_h entries out h2)" by (simp add: writes_only_def n2)
  have u: "(\<lambda>e. base (snd e)) ` set (groupMapObjs h2 out) \<subseteq> (\<lambda>e. base (snd e)) ` set (groupMapObjs h out) \<union> {a}"
    using set_update_subset [of k vv "groupMapObjs h out"] vv by (auto simp: g2)
  from le have iv: "{a} \<subseteq> {a..<nextAddr (copy_groups_h entries out h2)}"
    "{Suc a..<nextAddr (copy_groups_h entries out h2)} \<subseteq> {a..<nextAddr (copy_groups_h entries out h2)}"
    by auto
  from b u iv have 2: "(\<lambda>e. base (snd e)) ` set (groupMapObjs (copy_groups_h entries out h2) out)
           \<subseteq> (\<lambda>e. base (snd e)) ` set (groupMapObjs h out) \<union> {nextAddr h..<nextAddr (copy_groups_h entries out h2)}"
    unfolding n2 a_def [symmetric] by blast
  from 1 2 r r2 run show ?case by simp
qed

lemma copy_sets_h_fresh:
  assumes "out < nextAddr h"
  shows "writes_only {out} h (copy_sets_h entries out h) \<and>
         snd ` set (rbMapObjs (copy_sets_h entries out h) out)
           \<subseteq> snd ` set (rbMapObjs h out) \<union> {nextAddr h..<nextAddr (copy_sets_h entries out h)} \<and>
         groupMapObjs (copy_sets_h entries out h) = groupMapObjs h"
  using assms
proof (induction entries arbitrary: h)
  case Nil
  then show ?case by (simp add: writes_only_refl)
next
  case (Cons e entries)
  obtain i st where e: "e = (i, st)" by (cases e)
  define a where "a = nextAddr h"
  define h1 where "h1 = snd (new_set_h h)"
  define h2 where "h2 = h1\<lparr>setObjs := (setObjs h1)(a := setObjs h1 a \<union> setObjs h1 st)\<rparr>"
  define h3 where "h3 = store_rb_h h2 out i a"
  have run: "copy_sets_h (e # entries) out h = copy_sets_h entries out h3"
    by (simp add: e h3_def h2_def h1_def a_def new_set_h_def)
  have n3: "nextAddr h3 = Suc a"
    by (simp add: h3_def store_rb_h_def h2_def h1_def new_set_h_def a_def)
  have w03: "writes_only {out} h h3"
    by (simp add: h3_def store_rb_h_def h2_def h1_def new_set_h_def a_def writes_only_def same_obj_def)
  have r3: "rbMapObjs h3 out = AList.update i a (rbMapObjs h out)"
    by (simp add: h3_def store_rb_h_def h2_def h1_def new_set_h_def)
  have g3: "groupMapObjs h3 = groupMapObjs h"
    by (simp add: h3_def store_rb_h_def h2_def h1_def new_set_h_def)
  from Cons.prems n3 have "out < nextAddr h3" by (simp add: a_def)
  from Cons.IH [OF this]
  have w: "writes_only {out} h3 (copy_sets_h entries out h3)"
    and b: "snd ` set (rbMapObjs (copy_sets_h entries out h3) out)
           \<subseteq> snd ` set (rbMapObjs h3 out) \<union> {nextAddr h3..<nextAddr (copy_sets_h entries out h3)}"
    and g: "groupMapObjs (copy_sets_h entries out h3) = groupMapObjs h3" by simp_all
  from writes_only_trans [OF w03 w] have 1: "writes_only {out} h (copy_sets_h entries out h3)" by simp
  from w have le: "Suc a \<le> nextAddr (copy_sets_h entries out h3)" by (simp add: writes_only_def n3)
  have u: "snd ` set (rbMapObjs h3 out) \<subseteq> snd ` set (rbMapObjs h out) \<union> {a}"
    using set_update_subset [of i a "rbMapObjs h out"] by (auto simp: r3)
  from le have iv: "{a} \<subseteq> {a..<nextAddr (copy_sets_h entries out h3)}"
    "{Suc a..<nextAddr (copy_sets_h entries out h3)} \<subseteq> {a..<nextAddr (copy_sets_h entries out h3)}"
    by auto
  from b u iv have 2: "snd ` set (rbMapObjs (copy_sets_h entries out h3) out)
           \<subseteq> snd ` set (rbMapObjs h out) \<union> {nextAddr h..<nextAddr (copy_sets_h entries out h3)}"
    unfolding n3 a_def [symmetric] by blast
  from 1 2 g g3 run show ?case by simp
qed

lemma Snapshot_h_fresh:
  assumes snap: "Snapshot_h gate listed c h = (snap, h')"
  shows "writes_only {} h h' \<and> snap_addrs h' snap \<subseteq> {nextAddr h..<nextAddr h'}"
proof (cases listed)
  case None
  with snap have "snap = NewEmptySnapshot_h" and "h' = h" by (simp_all add: Snapshot_h_def)
  then show ?thesis
    by (simp add: NewEmptySnapshot_h_def snap_addrs_def writes_only_refl)
next
  case (Some cls)
  obtain ptrs ha where dc: "deep_copy_clusters_h cls [] h = (ptrs, ha)"
    by (cases "deep_copy_clusters_h cls [] h")
  from deep_copy_clusters_h_fresh [OF dc]
  have wa: "writes_only {} h ha" and pa: "set ptrs \<subseteq> {nextAddr h..<nextAddr ha}" by simp_all
  from wa have na: "nextAddr h \<le> nextAddr ha" by (simp add: writes_only_def)
  show ?thesis
  proof (cases gate)
    case False
    with snap Some dc have "snap = \<lparr>clustersPtrs = ptrs, clustersByRBSnap = None, affinityGroupsSnap = None\<rparr>"
      and "h' = ha" by (simp_all add: Snapshot_h_def)
    with wa pa show ?thesis by (simp add: snap_addrs_def)
  next
    case True
    define g where "g = nextAddr ha"
    define hb where "hb = ha\<lparr>groupMapObjs := (groupMapObjs ha)(g := []), nextAddr := Suc g\<rparr>"
    define hc where "hc = copy_groups_h (groupMapObjs hb (affinityGroupsRef c)) g hb"
    define r where "r = nextAddr hc"
    define hd where "hd = hc\<lparr>rbMapObjs := (rbMapObjs hc)(r := []), nextAddr := Suc r\<rparr>"
    define he where "he = copy_sets_h (rbMapObjs hd (clustersByRBRef c)) r hd"
    have "Snapshot_h gate listed c h =
        (\<lparr>clustersPtrs = ptrs, clustersByRBSnap = Some r, affinityGroupsSnap = Some g\<rparr>, he)"
      using Some dc True
      by (simp add: Snapshot_h_def Let_def he_def hd_def r_def hc_def hb_def g_def)
    with snap
    have s: "snap = \<lparr>clustersPtrs = ptrs, clustersByRBSnap = Some r, affinityGroupsSnap = Some g\<rparr>"
      and h': "h' = he"
      by simp_all
    have wb: "writes_only {} ha hb"
      by (simp add: hb_def g_def writes_only_def same_obj_def)
    have nb: "nextAddr hb = Suc g" by (simp add: hb_def)
    from copy_groups_h_fresh [of g hb "groupMapObjs hb (affinityGroupsRef c)", folded hc_def] nb
    have wc: "writes_only {g} hb hc"
      and bc: "(\<lambda>e. base (snd e)) ` set (groupMapObjs hc g)
                 \<subseteq> (\<lambda>e. base (snd e)) ` set (groupMapObjs hb g) \<union> {nextAddr hb..<nextAddr hc}"
      by simp_all
    from wc nb have nc: "Suc g \<le> r" by (simp add: writes_only_def r_def)
    have wd: "writes_only {} hc hd"
      by (simp add: hd_def r_def writes_only_def same_obj_def)
    have nd: "nextAddr hd = Suc r" by (simp add: hd_def)
    from copy_sets_h_fresh [of r hd "rbMapObjs hd (clustersByRBRef c)", folded he_def] nd
    have we: "writes_only {r} hd he"
      and be: "snd ` set (rbMapObjs he r) \<subseteq> snd ` set (rbMapObjs hd r) \<union> {nextAddr hd..<nextAddr he}"
      and ge: "groupMapObjs he = groupMapObjs hd"
      by simp_all
    from we nd have ne: "Suc r \<le> nextAddr he" by (simp add: writes_only_def)
    have w1: "writes_only {} h hb" by (rule writes_only_trans [OF wa wb]) simp
    have w2: "writes_only {} h hc" by (rule writes_only_trans [OF w1 wc]) (use na in \<open>simp add: g_def\<close>)
    have w3: "writes_only {} h hd" by (rule writes_only_trans [OF w2 wd]) simp
    have w4: "writes_only {} h he"
      by (rule writes_only_trans [OF w3 we]) (use na nc in \<open>simp add: g_def\<close>)
    have gb: "groupMapObjs hb g = []" by (simp add: hb_def)
    have rd: "rbMapObjs hd r = []" by (simp add: hd_def)
    have ghe: "groupMapObjs he g = groupMapObjs hc g" by (simp add: ge hd_def)
    from bc gb nb have bases: "(\<lambda>e. base (snd e)) ` set (groupMapObjs he g) \<subseteq> {Suc g..<r}"
      by (simp add: ghe r_def)
    from be rd nd have refs: "snd ` set (rbMapObjs he r) \<subseteq> {Suc r..<nextAddr he}" by simp
    have "snap_addrs he snap \<subseteq> {nextAddr h..<nextAddr he}"
    proof
      fix a assume "a \<in> snap_addrs he snap"
      then consider "a \<in> set ptrs" | "a = g" | "a \<in> (\<lambda>e. base (snd e)) ` set (groupMapObjs he g)"
        | "a = r" | "a \<in> snd ` set (rbMapObjs he r)"
        by (auto simp: snap_addrs_def s)
      then show "a \<in> {nextAddr h..<nextAddr he}"
      proof cases
        case 1
        with pa na nc ne show ?thesis by (auto simp: g_def)
      next
        case 2
        with na nc ne show ?thesis by (simp add: g_def)
      next
        case 3
        with bases have "a \<in> {Suc g..<r}" by blast
        with na nc ne show ?thesis by (simp add: g_def)
      next
        case 4
        with na nc ne show ?thesis by (simp add: g_def)
      next
        case 5
        with refs have "a \<in> {Suc r..<nextAddr he}" by blast
        with na nc ne show ?thesis by (simp add: g_def)
      qed
    qed
    with w4 h' show ?thesis by simp
  qed
qed

lemma writes_nothing_owned:
  assumes "writes_only {} h h'" "cache_ok h c"
  shows "owned h' c = owned h c"
proof -
  from assms have "same_obj h h' (affinityGroupsRef c)"
    by (simp add: writes_only_def cache_ok_def owned_def)
  then show ?thesis by (simp add: owned_def cache_bases_def same_obj_def)
qed

lemma Snapshot_h_separate:
  assumes ok: "cache_ok h c" and snap: "Snapshot_h gate listed c h = (snap, h')"
  shows "separate h' snap c" and "cache_ok h' c"
proof -
  from Snapshot_h_fresh [OF snap]
  have w: "writes_only {} h h'" and f: "snap_addrs h' snap \<subseteq> {nextAddr h..<nextAddr h'}" by simp_all
  from writes_nothing_owned [OF w ok] have o: "owned h' c = owned h c" .
  from w have n: "nextAddr h \<le> nextAddr h'" by (simp add: writes_only_def)
  from ok o n show "cache_ok h' c" by (auto simp: cache_ok_def)
  from ok o f show "separate h' snap c" by (fastforce simp: separate_def cache_ok_def)
qed

lemma snapshot_view_after_writes:
  assumes ok: "cache_ok h c" and snap: "Snapshot_h gate listed c h = (snap, h')"
  shows "snapshot_view (run_events_h grow c h' es) snap = snapshot_view h' snap"
proof -
  from Snapshot_h_separate [OF ok snap] have sep: "separate h' snap c" and ok': "cache_ok h' c" .
  from run_events_h_step [OF ok'] have "step_ok c h' (run_events_h grow c h' es)" .
  from separate_step(2) [OF sep this] show ?thesis .
qed

lemma view_clusters_pointwise:
  assumes "snapshot_view h' s = snapshot_view h s" "p \<in> set (clustersPtrs s)"
  shows "clusterObjs h' p = clusterObjs h p"
proof -
  from assms(1) have "map (clusterObjs h') (clustersPtrs s) = map (clusterObjs h) (clustersPtrs s)"
    by (simp add: snapshot_view_def)
  with assms(2) show ?thesis by (simp add: map_eq_conv)
qed

section \<open>The filter\<close>

lemma check_peers_code:
  "code (check_peers snap thisID cluster peers) =
     (if \<exists>peer \<in> set peers. peer \<noteq> thisID \<and> ClusterName cluster \<in> GetClustersForResourceBinding snap peer
      then Unschedulable else Success)"
  by (induction peers) (auto simp: NewResult_def)

text \<open>
  What \<^verbatim>\<open>Filter\<close> computes when the feature gate is enabled, the directive present, the
  snapshot not nil and the workload's value \<open>v\<close> for the directive's label key not empty:
  Unschedulable exactly when some peer id of \<^verbatim>\<open>GetPeerResourceBindings(namespace, key, v)\<close>,
  other than \<^verbatim>\<open>thisID\<close>, has the candidate cluster's name among its clusters, and Success
  otherwise. \<^verbatim>\<open>Filter\<close> receives the binding's spec and forms \<^verbatim>\<open>thisID\<close> from the namespace
  and name of \<^verbatim>\<open>bindingSpec.Resource\<close>, the workload.
\<close>

lemma Filter_code:
  assumes "WorkloadAffinity (Placement bindingSpec) = Some term"
    and "label_at (AffinityGroupLabel (Resource bindingSpec)) (AffinityLabelKey term) = v"
    and "v \<noteq> ''''"
  shows "code (Filter True bindingSpec cluster (Some snap)) =
     (if \<exists>peer \<in> set (GetPeerResourceBindings snap (ResNamespace (Resource bindingSpec)) (AffinityLabelKey term) v).
           peer \<noteq> ResNamespace (Resource bindingSpec) @ ''/'' @ ResName (Resource bindingSpec) \<and>
           ClusterName cluster \<in> GetClustersForResourceBinding snap peer
      then Unschedulable else Success)"
  using assms by (simp add: Filter_def Let_def check_peers_code)

text \<open>
  The snapshot of the index that holds \<^verbatim>\<open>ns1/job-a\<close> on \<^verbatim>\<open>clusterX\<close>. A pending binding
  \<^verbatim>\<open>ns1/job-b\<close> of the same group is refused \<^verbatim>\<open>clusterX\<close>; the binding \<^verbatim>\<open>ns1/job-a\<close>,
  which is named like its workload, is not refused the cluster it is on.
\<close>

definition snap_a :: Snapshot where
  "snap_a = TakeSnapshot True (Some [clusterX]) (OnResourceBindingAdd NewCache (PtrResourceBinding (Some job_a)))"

lemma snap_a_eq: "snap_a = \<lparr>clusters = [clusterX],
   snapClustersByRB = Some [''ns1/job-a'' \<mapsto> {''clusterX''}],
   snapAffinityGroups = Some [AntiKey ''ns1'' ''karmada.io/group'' ''alpha'' \<mapsto> [''ns1/job-a'']]\<rparr>"
  by (simp add: snap_a_def TakeSnapshot_def OnResourceBindingAdd_def indexRB_eq job_a_facts NewCache_def slice_at_def)

lemma Filter_peer_on_cluster:
  "code (Filter True (Spec job_b) clusterX (Some snap_a)) = Unschedulable"
  using Filter_code [of "Spec job_b" "\<lparr>AffinityLabelKey = ''karmada.io/group''\<rparr>" "''alpha''" clusterX snap_a]
  by (simp add: job_b_def mk_binding_def label_at_def snap_a_eq GetPeerResourceBindings_def
      GetClustersForResourceBinding_def MakeAntiKey_def slice_at_def set_at_def clusterX_def)

lemma Filter_same_name_skipped:
  "code (Filter True (Spec job_a) clusterX (Some snap_a)) = Success"
  using Filter_code [of "Spec job_a" "\<lparr>AffinityLabelKey = ''karmada.io/group''\<rparr>" "''alpha''" clusterX snap_a]
  by (simp add: job_a_def mk_binding_def label_at_def snap_a_eq GetPeerResourceBindings_def
      GetClustersForResourceBinding_def MakeAntiKey_def slice_at_def set_at_def clusterX_def)

text \<open>
  The snapshot of the index that holds the binding \<^verbatim>\<open>ns1/job-a-deployment\<close> of the
  workload \<^verbatim>\<open>ns1/job-a\<close> on \<^verbatim>\<open>clusterX\<close>.
\<close>

definition snap_own :: Snapshot where
  "snap_own = TakeSnapshot True (Some [clusterX])
                (OnResourceBindingAdd NewCache (PtrResourceBinding (Some job_a_deployment)))"

lemma snap_own_eq: "snap_own = \<lparr>clusters = [clusterX],
   snapClustersByRB = Some [''ns1/job-a-deployment'' \<mapsto> {''clusterX''}],
   snapAffinityGroups = Some [AntiKey ''ns1'' ''karmada.io/group'' ''alpha'' \<mapsto> [''ns1/job-a-deployment'']]\<rparr>"
  by (simp add: snap_own_def TakeSnapshot_def OnResourceBindingAdd_def indexRB_eq job_a_deployment_facts
      NewCache_def slice_at_def)

text \<open>
  C1. \<^verbatim>\<open>Filter\<close> does not answer Unschedulable exactly when a peer other than the binding's
  own namespace/name id is on the candidate cluster. The index stores a binding under
  \<^verbatim>\<open>rb.Namespace + "/" + rb.Name\<close>, while \<^verbatim>\<open>Filter\<close> skips the peer that equals
  \<^verbatim>\<open>bindingSpec.Resource.Namespace + "/" + bindingSpec.Resource.Name\<close>. The binding
  \<^verbatim>\<open>ns1/job-a-deployment\<close> of the workload \<^verbatim>\<open>ns1/job-a\<close> is indexed on \<^verbatim>\<open>clusterX\<close>
  and is the only peer of its group; the id that \<^verbatim>\<open>Filter\<close> skips is \<^verbatim>\<open>ns1/job-a\<close>, so
  \<^verbatim>\<open>Filter\<close> on the binding's own spec and \<^verbatim>\<open>clusterX\<close> answers Unschedulable, where no
  peer other than the binding itself is on that cluster.
\<close>

theorem filter_rejects_own_cluster:
  "rbID_of job_a_deployment = ''ns1/job-a-deployment'' \<and>
   ResNamespace (Resource (Spec job_a_deployment)) @ ''/'' @ ResName (Resource (Spec job_a_deployment)) = ''ns1/job-a'' \<and>
   GetPeerResourceBindings snap_own ''ns1'' ''karmada.io/group'' ''alpha'' = [''ns1/job-a-deployment''] \<and>
   GetClustersForResourceBinding snap_own ''ns1/job-a-deployment'' = {''clusterX''} \<and>
   Filter True (Spec job_a_deployment) clusterX (Some snap_own) =
     NewResult Unschedulable [''cluster violates this resource bindings anti-affinity term'']"
proof -
  have "Filter True (Spec job_a_deployment) clusterX (Some snap_own) =
     NewResult Unschedulable [''cluster violates this resource bindings anti-affinity term'']"
    by (simp add: snap_own_eq GetPeerResourceBindings_def GetClustersForResourceBinding_def
        MakeAntiKey_def slice_at_def set_at_def Filter_def Let_def job_a_deployment_def label_at_def
        clusterX_def)
  moreover have "ResNamespace (Resource (Spec job_a_deployment)) @ ''/'' @ ResName (Resource (Spec job_a_deployment)) = ''ns1/job-a''"
    by (simp add: job_a_deployment_def)
  ultimately show ?thesis
    by (simp add: job_a_deployment_facts snap_own_eq GetPeerResourceBindings_def
        GetClustersForResourceBinding_def MakeAntiKey_def slice_at_def set_at_def)
qed

text \<open>
  C4. With the feature gate enabled and the directive present, \<^verbatim>\<open>Filter\<close> on a nil
  snapshot answers Error. The reason is not the string \<^verbatim>\<open>snapshot is nil\<close>:
\<close>

theorem filter_nil_snapshot_counterexample:
  "reasons (Filter True (Spec job_b) clusterX None) \<noteq> [''snapshot is nil'']"
  by (simp add: Filter_def job_b_def mk_binding_def NewResult_def)

text \<open>
  C4, as the code has it: with the feature gate enabled and the directive present,
  \<^verbatim>\<open>Filter\<close> on a nil snapshot answers Error with the single reason
  \<^verbatim>\<open>anti-affinity snapshot is nil\<close>.
\<close>

theorem filter_nil_snapshot_error:
  "WorkloadAffinity (Placement bindingSpec) \<noteq> None \<Longrightarrow>
     Filter True bindingSpec cluster None = NewResult Error [''anti-affinity snapshot is nil'']"
  by (auto simp: Filter_def)

theorem filter_nil_snapshot_error_witness:
  "WorkloadAffinity (Placement (Spec job_b)) \<noteq> None \<and>
   Filter True (Spec job_b) clusterX None = \<lparr>code = Error, reasons = [''anti-affinity snapshot is nil'']\<rparr>"
  using filter_nil_snapshot_error [of "Spec job_b" clusterX]
  by (simp add: job_b_def mk_binding_def NewResult_def)

section \<open>Eligibility\<close>

text \<open>
  C5. \<^verbatim>\<open>OnResourceBindingAdd\<close> of a binding appends its id to the group list of its
  AffinityKey and stores the set of its target clusters under its id if the binding is
  eligible (target clusters non-empty, directive present with a non-empty label key, a
  non-empty value of the workload for that label), and only then: otherwise the index is
  unchanged, and an eligible binding always changes it.
\<close>

theorem add_indexes_iff_eligible:
  "(let c' = OnResourceBindingAdd c (PtrResourceBinding (Some rb)) in
     (eligible rb \<longrightarrow>
        (\<exists>key. affinity_key rb = Some key \<and>
           affinityGroups c' = (affinityGroups c)(key \<mapsto> slice_at (affinityGroups c) key @ [rbID_of rb]) \<and>
           clustersByRB c' = (clustersByRB c)(rbID_of rb \<mapsto> target_names rb))) \<and>
     (\<not> eligible rb \<longrightarrow> c' = c) \<and>
     (c' \<noteq> c \<longleftrightarrow> eligible rb))"
proof -
  have neq: "m(k \<mapsto> slice_at m k @ [i]) \<noteq> m" for m :: "AntiKey \<rightharpoonup> string list" and k i
  proof
    assume "m(k \<mapsto> slice_at m k @ [i]) = m"
    then have "m k = Some (slice_at m k @ [i])" by (metis fun_upd_same)
    then show False by (cases "m k") (simp_all add: slice_at_def)
  qed
  have neq': "c\<lparr>affinityGroups := (affinityGroups c)(k \<mapsto> slice_at (affinityGroups c) k @ [i]), clustersByRB := m\<rparr> \<noteq> c" for k i m
  proof
    assume "c\<lparr>affinityGroups := (affinityGroups c)(k \<mapsto> slice_at (affinityGroups c) k @ [i]), clustersByRB := m\<rparr> = c"
    then have "affinityGroups (c\<lparr>affinityGroups := (affinityGroups c)(k \<mapsto> slice_at (affinityGroups c) k @ [i]), clustersByRB := m\<rparr>) = affinityGroups c"
      by simp
    then show False using neq by simp
  qed
  show ?thesis
    by (auto simp: OnResourceBindingAdd_def indexRB_eq eligible_iff Let_def neq' split: option.splits)
qed

theorem add_indexes_iff_eligible_witness:
  "eligible job_a \<and> \<not> eligible job_b \<and>
   affinityGroups (OnResourceBindingAdd NewCache (PtrResourceBinding (Some job_a)))
     (AntiKey ''ns1'' ''karmada.io/group'' ''alpha'') = Some [''ns1/job-a''] \<and>
   clustersByRB (OnResourceBindingAdd NewCache (PtrResourceBinding (Some job_a))) ''ns1/job-a'' = Some {''clusterX''} \<and>
   OnResourceBindingAdd NewCache (PtrResourceBinding (Some job_b)) = NewCache"
  using add_indexes_iff_eligible [of NewCache job_a] add_indexes_iff_eligible [of NewCache job_b]
  by (simp add: Let_def eligible_iff job_a_facts job_b_facts NewCache_def slice_at_def)

section \<open>Malformed payloads\<close>

text \<open>
  C10. If either argument of \<^verbatim>\<open>OnResourceBindingUpdate\<close> is neither a ResourceBinding nor a
  tombstone wrapping one, the update is dropped as a whole: the old binding is not
  unindexed and the index is unchanged.
\<close>

theorem update_unrecognized_dropped:
  "getRBFromObj oldObj = None \<or> getRBFromObj newObj = None \<Longrightarrow>
     OnResourceBindingUpdate c oldObj newObj = c"
  by (auto simp: OnResourceBindingUpdate_def split: option.splits)

theorem update_unrecognized_dropped_witness:
  "OnResourceBindingUpdate (OnResourceBindingAdd NewCache (PtrResourceBinding (Some job_a)))
     (PtrResourceBinding (Some job_a)) (DeletedFinalStateUnknown ''ns1/job-a'' OtherObj)
   = OnResourceBindingAdd NewCache (PtrResourceBinding (Some job_a)) \<and>
   OnResourceBindingUpdate (OnResourceBindingAdd NewCache (PtrResourceBinding (Some job_a)))
     OtherObj (PtrResourceBinding (Some job_b))
   = OnResourceBindingAdd NewCache (PtrResourceBinding (Some job_a))"
  using update_unrecognized_dropped [of "PtrResourceBinding (Some job_a)" "DeletedFinalStateUnknown ''ns1/job-a'' OtherObj"]
    update_unrecognized_dropped [of OtherObj "PtrResourceBinding (Some job_b)"]
  by simp

section \<open>Deleting\<close>

text \<open>
  C6. The removal of the \<^verbatim>\<open>clustersByRB\<close> entry is not unconditional: \<^verbatim>\<open>unindexRB\<close>
  returns before it when the delivered binding has no directive. The entry of
  \<^verbatim>\<open>ns1/job-a\<close> survives the Delete of a binding of that id without directive.
\<close>

theorem delete_keeps_entry_counterexample:
  "rbID_of job_a_bare = ''ns1/job-a'' \<and>
   clustersByRB (OnResourceBindingDelete cache_a (PtrResourceBinding (Some job_a_bare))) ''ns1/job-a''
     = Some {''clusterX''}"
  by (simp add: OnResourceBindingDelete_def unindexRB_eq job_a_bare_facts cache_a_eq)

text \<open>
  C6, as the code has it: after the Delete of a binding that carries the directive with a
  non-empty label key and a non-empty value of the workload for that label, in every index
  state, \<^verbatim>\<open>clustersByRB\<close> has no entry for the binding's id; the Delete of a binding
  without the directive, the key or the value leaves the index unchanged.
\<close>

theorem delete_removes_entry:
  "(affinity_key rb \<noteq> None \<longrightarrow>
      clustersByRB (OnResourceBindingDelete c (PtrResourceBinding (Some rb))) (rbID_of rb) = None) \<and>
   (affinity_key rb = None \<longrightarrow> OnResourceBindingDelete c (PtrResourceBinding (Some rb)) = c)"
  by (auto simp: OnResourceBindingDelete_def unindexRB_eq)

theorem delete_removes_entry_witness:
  "affinity_key job_a \<noteq> None \<and> affinity_key job_a_bare = None \<and> clustersByRB cache_a (rbID_of job_a) \<noteq> None \<and>
   clustersByRB (OnResourceBindingDelete cache_a (PtrResourceBinding (Some job_a))) (rbID_of job_a) = None \<and>
   OnResourceBindingDelete cache_a (PtrResourceBinding (Some job_a_bare)) = cache_a"
  using delete_removes_entry [of job_a cache_a] delete_removes_entry [of job_a_bare cache_a]
  by (simp add: job_a_facts job_a_bare_facts cache_a_eq)

text \<open>
  C7. Add followed by Delete of the same binding does not restore every index state: when
  the id is already in its list, the Add appends a second occurrence and the Delete removes
  both, and the cluster set.
\<close>

theorem add_delete_not_inverse_counterexample:
  "affinityGroups cache_a (AntiKey ''ns1'' ''karmada.io/group'' ''alpha'') = Some [''ns1/job-a''] \<and>
   affinityGroups (OnResourceBindingDelete (OnResourceBindingAdd cache_a (PtrResourceBinding (Some job_a)))
                     (PtrResourceBinding (Some job_a)))
     (AntiKey ''ns1'' ''karmada.io/group'' ''alpha'') = None"
  by (simp add: OnResourceBindingDelete_def OnResourceBindingAdd_def unindexRB_eq indexRB_eq
      job_a_facts cache_a_eq slice_at_def)

text \<open>
  C7, as the code has it: Add followed by Delete of the same binding \<open>b\<close> yields the
  index state before the Add, both maps with list contents and order, in every state where
  (if \<open>b\<close> carries the directive and the label value, so that it has a key) the id of
  \<open>b\<close> is not in the list of its key, that list is not an empty list, and
  \<^verbatim>\<open>clustersByRB\<close> has no entry for the id. No state reached from the empty index has
  an empty list (\<open>no_empty_bucket_reachable\<close>).
\<close>

theorem add_then_delete_restores:
  assumes "\<And>k. affinity_key b = Some k \<Longrightarrow>
             rbID_of b \<notin> set (slice_at (affinityGroups c) k) \<and> affinityGroups c k \<noteq> Some [] \<and>
             clustersByRB c (rbID_of b) = None"
  shows "OnResourceBindingDelete (OnResourceBindingAdd c (PtrResourceBinding (Some b)))
           (PtrResourceBinding (Some b)) = c"
proof (cases "affinity_key b")
  case None
  then show ?thesis
    by (simp add: OnResourceBindingDelete_def OnResourceBindingAdd_def unindexRB_eq indexRB_eq)
next
  case (Some k)
  from assms [OF Some] have fresh: "rbID_of b \<notin> set (slice_at (affinityGroups c) k)"
    and ne: "affinityGroups c k \<noteq> Some []" and noentry: "clustersByRB c (rbID_of b) = None"
    by simp_all
  show ?thesis
  proof (cases "affinityGroups c k")
    case None
    with Some noentry show ?thesis
      by (auto simp: OnResourceBindingDelete_def OnResourceBindingAdd_def unindexRB_eq indexRB_eq
          slice_at_def intro!: cache_eqI)
  next
    case (Some xs)
    with fresh ne have "xs \<noteq> []" "filter (\<lambda>j. j \<noteq> rbID_of b) xs = xs"
      "filter (\<lambda>j. j \<noteq> rbID_of b) (xs @ [rbID_of b]) = xs"
      by (simp_all add: slice_at_def filter_append_fresh filter_fresh)
    with Some \<open>affinity_key b = Some k\<close> noentry show ?thesis
      by (auto simp: OnResourceBindingDelete_def OnResourceBindingAdd_def unindexRB_eq indexRB_eq
          slice_at_def intro!: cache_eqI)
  qed
qed

theorem add_then_delete_restores_witness:
  "affinity_key job_c = Some (AntiKey ''ns1'' ''karmada.io/group'' ''alpha'') \<and>
   eligible job_c \<and>
   rbID_of job_c \<notin> set (slice_at (affinityGroups cache_a) (AntiKey ''ns1'' ''karmada.io/group'' ''alpha'')) \<and>
   affinityGroups cache_a (AntiKey ''ns1'' ''karmada.io/group'' ''alpha'') \<noteq> Some [] \<and>
   clustersByRB cache_a (rbID_of job_c) = None \<and>
   affinityGroups cache_a (AntiKey ''ns1'' ''karmada.io/group'' ''alpha'') = Some [''ns1/job-a''] \<and>
   affinityGroups (OnResourceBindingAdd cache_a (PtrResourceBinding (Some job_c)))
     (AntiKey ''ns1'' ''karmada.io/group'' ''alpha'') = Some [''ns1/job-a'', ''ns1/job-c''] \<and>
   clustersByRB (OnResourceBindingAdd cache_a (PtrResourceBinding (Some job_c))) ''ns1/job-c'' = Some {''clusterY''} \<and>
   OnResourceBindingAdd cache_a (PtrResourceBinding (Some job_c)) \<noteq> cache_a \<and>
   OnResourceBindingDelete (OnResourceBindingAdd cache_a (PtrResourceBinding (Some job_c)))
     (PtrResourceBinding (Some job_c)) = cache_a \<and>
   eligible job_a \<and> affinityGroups NewCache (AntiKey ''ns1'' ''karmada.io/group'' ''alpha'') = None \<and>
   OnResourceBindingAdd NewCache (PtrResourceBinding (Some job_a)) \<noteq> NewCache \<and>
   OnResourceBindingDelete (OnResourceBindingAdd NewCache (PtrResourceBinding (Some job_a)))
     (PtrResourceBinding (Some job_a)) = NewCache"
proof -
  have add_c: "OnResourceBindingAdd cache_a (PtrResourceBinding (Some job_c)) = cache_ac"
    by (simp add: cache_ac_def)
  have add_a: "OnResourceBindingAdd NewCache (PtrResourceBinding (Some job_a)) = cache_a"
    by (simp add: cache_a_def)
  have pre_c: "\<And>k. affinity_key job_c = Some k \<Longrightarrow>
      rbID_of job_c \<notin> set (slice_at (affinityGroups cache_a) k) \<and> affinityGroups cache_a k \<noteq> Some [] \<and>
      clustersByRB cache_a (rbID_of job_c) = None"
    by (simp add: job_c_facts cache_a_eq slice_at_def)
  have pre_a: "\<And>k. affinity_key job_a = Some k \<Longrightarrow>
      rbID_of job_a \<notin> set (slice_at (affinityGroups NewCache) k) \<and> affinityGroups NewCache k \<noteq> Some [] \<and>
      clustersByRB NewCache (rbID_of job_a) = None"
    by (simp add: job_a_facts NewCache_def slice_at_def)
  have neq_c: "cache_ac \<noteq> cache_a"
    by (simp add: cache_ac_eq cache_a_eq fun_eq_iff)
  have neq_a: "cache_a \<noteq> NewCache"
    by (simp add: cache_a_eq NewCache_def fun_eq_iff)
  from add_then_delete_restores [of job_c cache_a, OF pre_c]
       add_then_delete_restores [of job_a NewCache, OF pre_a] neq_c neq_a
  show ?thesis
    unfolding add_c add_a
    by (simp add: job_c_facts job_a_facts eligible_iff cache_a_eq cache_ac_eq NewCache_def slice_at_def)
qed

section \<open>Updating a binding by itself\<close>

text \<open>
  C8. An Update whose old and new object are the same binding is not a no-op in every
  state: on the empty index it indexes the binding, and where the binding is indexed
  before another one of its group, its id moves to the end of the list.
\<close>

theorem update_same_counterexample:
  "OnResourceBindingUpdate NewCache (PtrResourceBinding (Some job_a)) (PtrResourceBinding (Some job_a)) = cache_a \<and>
   cache_a \<noteq> NewCache \<and>
   affinityGroups cache_ac (AntiKey ''ns1'' ''karmada.io/group'' ''alpha'') = Some [''ns1/job-a'', ''ns1/job-c''] \<and>
   affinityGroups (OnResourceBindingUpdate cache_ac (PtrResourceBinding (Some job_a)) (PtrResourceBinding (Some job_a)))
     (AntiKey ''ns1'' ''karmada.io/group'' ''alpha'') = Some [''ns1/job-c'', ''ns1/job-a'']"
proof -
  have "affinityGroups cache_a \<noteq> affinityGroups NewCache"
    by (simp add: cache_a_eq NewCache_def)
  then have "cache_a \<noteq> NewCache" by auto
  then show ?thesis
    by (simp add: OnResourceBindingUpdate_def unindexRB_eq indexRB_eq job_a_facts cache_ac_eq cache_a_eq
        NewCache_def slice_at_def)
qed

text \<open>
  C8, as the code has it: \<^verbatim>\<open>OnResourceBindingUpdate(x, x)\<close> removes and inserts again.
  It leaves the index state unchanged exactly in the states \<open>settled\<close>: \<open>x\<close> has no
  directive or no label value; or \<open>x\<close> is eligible, its id is the last element of the list
  of its key and occurs nowhere else in it, and its cluster set is the stored one; or \<open>x\<close>
  has a key but no target clusters and is in neither map (its list not being empty).
  Where the index holds \<open>x\<close> as delivered with its id once in the list (\<open>held\<close>), the
  update keeps \<^verbatim>\<open>clustersByRB\<close> and the ids of every list with their multiplicities;
  only the order of the list of \<open>x\<close> may change.
\<close>

theorem update_same_binding:
  "(OnResourceBindingUpdate c (PtrResourceBinding (Some x)) (PtrResourceBinding (Some x)) = c \<longleftrightarrow> settled c x) \<and>
   (held c x \<longrightarrow>
      clustersByRB (OnResourceBindingUpdate c (PtrResourceBinding (Some x)) (PtrResourceBinding (Some x)))
        = clustersByRB c \<and>
      (\<forall>k. mset (slice_at (affinityGroups
               (OnResourceBindingUpdate c (PtrResourceBinding (Some x)) (PtrResourceBinding (Some x)))) k)
            = mset (slice_at (affinityGroups c) k)))"
proof (intro conjI impI)
  show "OnResourceBindingUpdate c (PtrResourceBinding (Some x)) (PtrResourceBinding (Some x)) = c \<longleftrightarrow> settled c x"
  proof (cases "affinity_key x")
    case None
    then show ?thesis by (simp add: update_same_eq settled_def indexRB_eq unindexRB_eq)
  next
    case (Some k)
    show ?thesis
    proof (cases "Clusters (Spec x) = []")
      case True
      then have "indexRB (unindexRB c x) x = unindexRB c x" by (simp add: indexRB_eq split: option.splits)
      with True Some show ?thesis
        by (simp add: update_same_eq settled_def unindex_noop_iff [OF Some])
    next
      case False
      with Some show ?thesis
        by (simp add: update_same_eq settled_def reindex_eligible_noop_iff [OF Some False])
    qed
  qed
next
  assume h: "held c x"
  show "clustersByRB (OnResourceBindingUpdate c (PtrResourceBinding (Some x)) (PtrResourceBinding (Some x)))
        = clustersByRB c"
    using h
    by (auto simp: update_same_eq held_def clustersByRB_indexRB clustersByRB_unindexRB eligible_iff
        split: option.splits if_splits)
next
  assume h: "held c x"
  have one: "count_list xs i = 1 \<Longrightarrow> mset (filter (\<lambda>j. j \<noteq> i) xs @ [i]) = mset xs" for xs :: "string list" and i
  proof (induction xs)
    case Nil
    then show ?case by simp
  next
    case (Cons y ys)
    show ?case
    proof (cases "y = i")
      case True
      with Cons.prems have "i \<notin> set ys" by (simp add: count_list_0_iff)
      then have "filter (\<lambda>j. j \<noteq> i) ys = ys" by (auto simp: filter_id_conv)
      with True show ?thesis by (simp del: mset_filter)
    next
      case False
      with Cons.prems have "count_list ys i = 1" by simp
      from Cons.IH [OF this] False show ?thesis by (simp del: mset_filter)
    qed
  qed
  have one': "count_list xs i = 1 \<Longrightarrow> add_mset i (filter_mset (\<lambda>j. j \<noteq> i) (mset xs)) = mset xs"
    for xs :: "string list" and i
    using one [of xs i] by simp
  have none: "i \<notin> set xs \<Longrightarrow> filter_mset (\<lambda>j. j \<noteq> i) (mset xs) = mset xs" for xs :: "string list" and i
    by (induction xs) auto
  show "\<forall>k. mset (slice_at (affinityGroups
               (OnResourceBindingUpdate c (PtrResourceBinding (Some x)) (PtrResourceBinding (Some x)))) k)
            = mset (slice_at (affinityGroups c) k)"
    using h
    by (auto simp: update_same_eq held_def slice_at_indexRB slice_at_unindexRB eligible_iff one' none
        split: option.splits if_splits)
qed

theorem update_same_binding_witness:
  "settled cache_a job_a \<and>
   OnResourceBindingUpdate cache_a (PtrResourceBinding (Some job_a)) (PtrResourceBinding (Some job_a)) = cache_a \<and>
   held cache_ac job_a \<and> \<not> settled cache_ac job_a \<and>
   clustersByRB (OnResourceBindingUpdate cache_ac (PtrResourceBinding (Some job_a)) (PtrResourceBinding (Some job_a)))
     = clustersByRB cache_ac \<and>
   mset (slice_at (affinityGroups
           (OnResourceBindingUpdate cache_ac (PtrResourceBinding (Some job_a)) (PtrResourceBinding (Some job_a))))
           (AntiKey ''ns1'' ''karmada.io/group'' ''alpha''))
     = mset [''ns1/job-a'', ''ns1/job-c'']"
proof -
  have s: "settled cache_a job_a"
    by (simp add: settled_def job_a_facts cache_a_eq slice_at_def)
  have h: "held cache_ac job_a" and ns: "\<not> settled cache_ac job_a"
    by (simp_all add: held_def settled_def job_a_facts cache_ac_eq slice_at_def)
  have sl: "slice_at (affinityGroups cache_ac) (AntiKey ''ns1'' ''karmada.io/group'' ''alpha'') = [''ns1/job-a'', ''ns1/job-c'']"
    by (simp add: cache_ac_eq slice_at_def)
  from update_same_binding [of cache_a job_a] s update_same_binding [of cache_ac job_a] h ns sl
  show ?thesis by simp
qed

section \<open>Duplicates in a group list\<close>

text \<open>
  C2. The claim that no id occurs twice in a list after every sequence of events, and that
  an Add of an id already present does not append it again, fails: \<^verbatim>\<open>indexRB\<close> appends
  without looking, and two Adds of one binding leave its id twice.
\<close>

theorem add_twice_duplicates_counterexample:
  "affinityGroups (run_events NewCache [Add (PtrResourceBinding (Some job_a)), Add (PtrResourceBinding (Some job_a))])
     (AntiKey ''ns1'' ''karmada.io/group'' ''alpha'') = Some [''ns1/job-a'', ''ns1/job-a'']"
  by (simp add: OnResourceBindingAdd_def indexRB_eq job_a_facts NewCache_def slice_at_def)

text \<open>
  C2, as the code has it: after every sequence of Add, Update and Delete events that keeps
  to the informer's contract, starting from the empty index, no binding id occurs more
  than once in any single group list.
\<close>

theorem no_duplicates_under_contract:
  assumes "deliver_all Map.empty es \<noteq> None"
  shows "\<forall>k. distinct (slice_at (affinityGroups (run_events NewCache es)) k)"
proof -
  from assms obtain st' where "deliver_all Map.empty es = Some st'" by auto
  from mirrors_run [OF mirrors_empty this] show ?thesis by (simp add: mirrors_def)
qed

theorem no_duplicates_under_contract_witness:
  "deliver_all Map.empty [Add (PtrResourceBinding (Some job_a)),
       Update (PtrResourceBinding (Some job_a)) (PtrResourceBinding (Some job_a_moved)),
       Delete (DeletedFinalStateUnknown ''ns1/job-a'' (PtrResourceBinding (Some job_a_moved))),
       Add (PtrResourceBinding (Some job_a))] \<noteq> None \<and>
   (\<forall>k. distinct (slice_at (affinityGroups (run_events NewCache [Add (PtrResourceBinding (Some job_a)),
       Update (PtrResourceBinding (Some job_a)) (PtrResourceBinding (Some job_a_moved)),
       Delete (DeletedFinalStateUnknown ''ns1/job-a'' (PtrResourceBinding (Some job_a_moved))),
       Add (PtrResourceBinding (Some job_a))])) k))"
proof -
  have d: "deliver_all Map.empty [Add (PtrResourceBinding (Some job_a)),
       Update (PtrResourceBinding (Some job_a)) (PtrResourceBinding (Some job_a_moved)),
       Delete (DeletedFinalStateUnknown ''ns1/job-a'' (PtrResourceBinding (Some job_a_moved))),
       Add (PtrResourceBinding (Some job_a))] \<noteq> None"
    by (simp add: job_a_facts job_a_moved_facts)
  from d no_duplicates_under_contract [OF d] show ?thesis by blast
qed

section \<open>The feature gate\<close>

text \<open>
  C3. The handlers do not read the feature gate (it is not among their arguments): an Add
  of an eligible binding changes both maps of the index whatever the gate says.
\<close>

theorem handler_ignores_gate_counterexample:
  "affinityGroups NewCache (AntiKey ''ns1'' ''karmada.io/group'' ''alpha'') = None \<and>
   clustersByRB NewCache ''ns1/job-a'' = None \<and>
   affinityGroups (OnResourceBindingAdd NewCache (PtrResourceBinding (Some job_a)))
     (AntiKey ''ns1'' ''karmada.io/group'' ''alpha'') = Some [''ns1/job-a''] \<and>
   clustersByRB (OnResourceBindingAdd NewCache (PtrResourceBinding (Some job_a))) ''ns1/job-a''
     = Some {''clusterX''}"
  by (simp add: OnResourceBindingAdd_def indexRB_eq job_a_facts NewCache_def slice_at_def)

text \<open>
  C3, as the code has it: the gate is read by \<^verbatim>\<open>Snapshot\<close> and by \<^verbatim>\<open>Filter\<close>. With
  the gate disabled, whatever events the handlers served, a snapshot carries neither map,
  so its peer lists and cluster sets are empty for every query, and the filter answers
  Success.
\<close>

theorem gate_off_hides_index:
  "GetPeerResourceBindings (TakeSnapshot False listed (run_events c es)) ns key val = [] \<and>
   GetClustersForResourceBinding (TakeSnapshot False listed (run_events c es)) rbID = {} \<and>
   Filter False bindingSpec cluster snapshot = NewResult Success []"
  by (simp add: GetPeerResourceBindings_def GetClustersForResourceBinding_def TakeSnapshot_def
      NewEmptySnapshot_def Filter_def split: option.splits)

section \<open>A snapshot does not change\<close>

text \<open>
  C9. A snapshot is immutable with respect to the index it was taken from. The index is
  made on any heap and serves any events; a snapshot is taken, with the gate on or off and
  whatever the lister answers; the index then serves any further events, appending to and
  filtering its lists in place. Every accessor of the snapshot returns afterwards what it
  returned before: the peers of every group, the cluster set of every binding, the
  clusters, the ready ones, their names and the cluster of every name.
\<close>

theorem snapshot_immutable:
  "let c = fst (NewCache_h h0);
       h2 = run_events_h grow c (snd (NewCache_h h0)) before;
       snap = fst (Snapshot_h gate listed c h2);
       h3 = snd (Snapshot_h gate listed c h2);
       h4 = run_events_h grow' c h3 after
   in (\<forall>ns key val. read_slice h4 (GetPeerResourceBindings_h h4 snap ns key val)
                     = read_slice h3 (GetPeerResourceBindings_h h3 snap ns key val)) \<and>
      (\<forall>rbID. read_set h4 (GetClustersForResourceBinding_h h4 snap rbID)
                     = read_set h3 (GetClustersForResourceBinding_h h3 snap rbID)) \<and>
      map (clusterObjs h4) (GetClusters_h snap) = map (clusterObjs h3) (GetClusters_h snap) \<and>
      GetReadyClusters_h h4 snap = GetReadyClusters_h h3 snap \<and>
      GetReadyClusterNames_h h4 snap = GetReadyClusterNames_h h3 snap \<and>
      (\<forall>clusterName. GetCluster_h h4 snap clusterName = GetCluster_h h3 snap clusterName) \<and>
      snapshot_view h4 snap = snapshot_view h3 snap"
proof -
  define c where "c = fst (NewCache_h h0)"
  define h1 where "h1 = snd (NewCache_h h0)"
  define h2 where "h2 = run_events_h grow c h1 before"
  define snap where "snap = fst (Snapshot_h gate listed c h2)"
  define h3 where "h3 = snd (Snapshot_h gate listed c h2)"
  define h4 where "h4 = run_events_h grow' c h3 after"
  have "NewCache_h h0 = (c, h1)" by (simp add: c_def h1_def)
  then have ok1: "cache_ok h1 c" by (rule NewCache_h_ok)
  from step_ok_cache_ok [OF run_events_h_step [OF ok1] ok1] have ok2: "cache_ok h2 c"
    by (simp add: h2_def)
  have sn: "Snapshot_h gate listed c h2 = (snap, h3)" by (simp add: snap_def h3_def)
  from snapshot_view_after_writes [OF ok2 sn] have v: "snapshot_view h4 snap = snapshot_view h3 snap"
    by (simp add: h4_def)
  from view_clusters_pointwise [OF v]
  have cl: "\<And>p. p \<in> set (clustersPtrs snap) \<Longrightarrow> clusterObjs h4 p = clusterObjs h3 p" .
  have peers: "read_slice h4 (GetPeerResourceBindings_h h4 snap ns key val)
      = read_slice h3 (GetPeerResourceBindings_h h3 snap ns key val)" for ns key val
    by (simp add: GetPeerResourceBindings_view v)
  have sets: "read_set h4 (GetClustersForResourceBinding_h h4 snap rbID)
      = read_set h3 (GetClustersForResourceBinding_h h3 snap rbID)" for rbID
    by (simp add: GetClustersForResourceBinding_view v)
  have all: "map (clusterObjs h4) (GetClusters_h snap) = map (clusterObjs h3) (GetClusters_h snap)"
    by (simp add: GetClusters_view v)
  have ready: "GetReadyClusters_h h4 snap = GetReadyClusters_h h3 snap"
    unfolding GetReadyClusters_h_def by (rule filter_cong) (simp_all add: cl)
  have names: "GetReadyClusterNames_h h4 snap = GetReadyClusterNames_h h3 snap"
    by (simp add: GetReadyClusterNames_view v)
  have one: "GetCluster_h h4 snap clusterName = GetCluster_h h3 snap clusterName" for clusterName
    unfolding GetCluster_h_def by (rule find_cong) (simp_all add: cl)
  from peers sets all ready names one v show ?thesis
    unfolding Let_def c_def [symmetric] h1_def [symmetric] h2_def [symmetric] snap_def [symmetric]
      h3_def [symmetric] h4_def [symmetric]
    by blast
qed

end
